theory Spec2Isabelle
  imports Complex_Main "HOL-Library.Extended_Nat" "HOL-Library.Word" "HOL-Library.Sublist"
begin

section \<open>Lossless PNG strategy selection (ga2-q2/compress.py)\<close>

text \<open>
  The function \<open>ultra_compress_lossless\<close> of \<open>src/ga2-q2/compress.py\<close> saves an image
  several times under temporary file names, re-opens every file to compare its pixels
  with the original ones, remembers the smallest file that compared equal, and copies it
  to the output path when it is smaller than the target.

  The image library (PIL) and the operating system are not part of the repository: the
  four operations of the library the function calls, and the answers of the operating
  system to a request to open a path for writing or to remove a file, are the fields of
  the record \<open>pil\<close>, and every theorem holds for every such record. An operation that
  raises returns \<open>None\<close>. The files are a map from names to byte lists.
\<close>

subsection \<open>Images, the image library, files\<close>

type_synonym bytes = "8 word list"

type_synonym pixel = "nat list"

record image =
  width :: nat
  height :: nat
  mode :: string
  palette :: "pixel list"
  pixels :: "pixel list"

text \<open>
  \<open>save_png im bits\<close> is \<open>im.save(path, 'PNG', optimize=True, compress_level=9)\<close>, with
  \<open>bits=b\<close> when the second argument is \<open>Some b\<close>: the bytes it writes.
  \<open>open_image\<close> is \<open>Image.open\<close> followed by the load that \<open>getdata\<close> forces.
  \<open>convert_P im n\<close> is \<open>im.convert('P', palette=Image.ADAPTIVE, colors=n)\<close> and
  \<open>convert im m\<close> is \<open>im.convert(m)\<close>. \<open>writable F path\<close> tells whether, with the files \<open>F\<close>
  on the disk, \<open>path\<close> can be opened for writing: it cannot when its directory is missing,
  when it names a directory, when the permissions or the free space do not allow it.
  \<open>removable F path\<close> tells whether the operating system lets the existing file \<open>path\<close> be
  removed.
\<close>

record pil =
  save_png :: "image \<Rightarrow> nat option \<Rightarrow> bytes option"
  open_image :: "bytes \<Rightarrow> image option"
  convert_P :: "image \<Rightarrow> nat \<Rightarrow> image option"
  convert :: "image \<Rightarrow> string \<Rightarrow> image option"
  writable :: "(string \<rightharpoonup> bytes) \<Rightarrow> string \<Rightarrow> bool"
  removable :: "(string \<rightharpoonup> bytes) \<Rightarrow> string \<Rightarrow> bool"

type_synonym fs = "string \<rightharpoonup> bytes"

text \<open>
  The exceptions: \<open>WriteError\<close> is the \<open>OSError\<close> of a path that cannot be opened for writing
  (\<open>FileNotFoundError\<close> for a missing directory, \<open>PermissionError\<close>, ...), \<open>SaveError\<close> the
  one of an image the encoder refuses, \<open>FileNotFoundError\<close> the one of reading or removing a
  missing file, \<open>RemoveError\<close> the \<open>OSError\<close> of a file that cannot be removed.
  \<open>Image.save\<close> opens the file before it encodes, and removes the file it created when the
  encoder fails.
\<close>

datatype error =
  WriteError | SaveError | OpenError | ConvertError | FileNotFoundError | RemoveError
| TypeError | ZeroDivisionError

definition img_save :: "pil \<Rightarrow> image \<Rightarrow> nat option \<Rightarrow> string \<Rightarrow> fs \<Rightarrow> error + fs" where
  "img_save P im bits path F =
     (if writable P F path then
        (case save_png P im bits of
           None \<Rightarrow> Inl SaveError
         | Some b \<Rightarrow> Inr (F(path \<mapsto> b)))
      else Inl WriteError)"

definition getsize :: "fs \<Rightarrow> string \<Rightarrow> error + nat" where
  "getsize F path = (case F path of None \<Rightarrow> Inl FileNotFoundError | Some b \<Rightarrow> Inr (length b))"

definition Image_open :: "pil \<Rightarrow> fs \<Rightarrow> string \<Rightarrow> error + image" where
  "Image_open P F path =
     (case F path of
        None \<Rightarrow> Inl FileNotFoundError
      | Some b \<Rightarrow> (case open_image P b of None \<Rightarrow> Inl OpenError | Some im \<Rightarrow> Inr im))"

definition os_remove :: "pil \<Rightarrow> string \<Rightarrow> fs \<Rightarrow> error + fs" where
  "os_remove P path F =
     (if F path = None then Inl FileNotFoundError
      else if removable P F path then Inr (F(path := None))
      else Inl RemoveError)"

subsection \<open>The state of a run\<close>

text \<open>
  \<open>method_name\<close> stands for the third component of the tuples of the list \<open>strategies\<close>
  (the strings \<open>PNG compress_level=9\<close>, \<open>Palette mode (n colors)\<close>, \<open>PNG filter i\<close>,
  \<open>b-bit grayscale\<close>). \<open>best_size\<close> starts as \<open>float('inf')\<close>, which is \<open>\<infinity>\<close>.
  \<open>attempted\<close> records the headers \<open>Strategy k: ...\<close> the function prints.
\<close>

datatype method_name = Direct | Palette nat | Filter nat | Bits nat

record state =
  files :: fs
  strategies :: "(string \<times> nat \<times> method_name) list"
  best_size :: enat
  best_file :: "string option"
  attempted :: "nat list"

definition init :: "fs \<Rightarrow> state" where
  "init F = \<lparr>files = F, strategies = [], best_size = \<infinity>, best_file = None, attempted = []\<rparr>"

text \<open>
  The four places that append to \<open>strategies\<close> and then update the running best
  (lines 50-53, 77-80, 97-100, 120-123) do the same thing.
\<close>

definition record_candidate :: "string \<Rightarrow> nat \<Rightarrow> method_name \<Rightarrow> state \<Rightarrow> state" where
  "record_candidate f sz m st =
     (let st1 = st\<lparr>strategies := strategies st @ [(f, sz, m)]\<rparr>
      in if enat sz < best_size st1
         then st1\<lparr>best_size := enat sz, best_file := Some f\<rparr>
         else st1)"

definition digit :: "nat \<Rightarrow> string" where
  "digit n =
     (if n = 0 then ''0'' else if n = 1 then ''1'' else if n = 2 then ''2''
      else if n = 3 then ''3'' else if n = 4 then ''4'' else ''?'')"

definition temp1 :: string where "temp1 = ''temp_method1.png''"

definition temp2 :: string where "temp2 = ''temp_method2.png''"

definition temp3 :: "nat \<Rightarrow> string" where
  "temp3 filter_type = ''temp_filter_'' @ digit filter_type @ ''.png''"

definition temp4 :: "nat \<Rightarrow> string" where
  "temp4 bits = ''temp_bits_'' @ digit bits @ ''.png''"

definition unique_colors :: "image \<Rightarrow> nat" where
  "unique_colors img = length (remdups (pixels img))"

subsection \<open>The four strategies\<close>

definition strategy1 :: "pil \<Rightarrow> image \<Rightarrow> state \<Rightarrow> error + state" where
  "strategy1 P img st0 =
     (let st = st0\<lparr>attempted := attempted st0 @ [1]\<rparr> in
      case img_save P img None temp1 (files st) of
        Inl e \<Rightarrow> Inl e
      | Inr F \<Rightarrow>
          (case getsize F temp1 of
             Inl e \<Rightarrow> Inl e
           | Inr size1 \<Rightarrow>
               (case Image_open P F temp1 of
                  Inl e \<Rightarrow> Inl e
                | Inr verify1 \<Rightarrow>
                    if pixels verify1 = pixels img
                    then Inr (record_candidate temp1 size1 Direct (st\<lparr>files := F\<rparr>))
                    else
                      (case os_remove P temp1 F of
                         Inl e \<Rightarrow> Inl e
                       | Inr F' \<Rightarrow> Inr (st\<lparr>files := F'\<rparr>)))))"

definition palette_applicable :: "image \<Rightarrow> bool" where
  "palette_applicable img =
     (unique_colors img \<le> 256 \<and> mode img \<in> set [''RGB'', ''RGBA'', ''L''])"

definition strategy2 :: "pil \<Rightarrow> image \<Rightarrow> state \<Rightarrow> error + state" where
  "strategy2 P img st0 =
     (if palette_applicable img then
        (let st = st0\<lparr>attempted := attempted st0 @ [2]\<rparr> in
         case convert_P P img (unique_colors img) of
           None \<Rightarrow> Inl ConvertError
         | Some palette_img \<Rightarrow>
             (case img_save P palette_img None temp2 (files st) of
                Inl e \<Rightarrow> Inl e
              | Inr F \<Rightarrow>
                  (case getsize F temp2 of
                     Inl e \<Rightarrow> Inl e
                   | Inr size2 \<Rightarrow>
                       (case Image_open P F temp2 of
                          Inl e \<Rightarrow> Inl e
                        | Inr opened \<Rightarrow>
                            (case convert P opened (mode img) of
                               None \<Rightarrow> Inl ConvertError
                             | Some verify2 \<Rightarrow>
                                 if pixels verify2 = pixels img
                                 then Inr (record_candidate temp2 size2
                                             (Palette (unique_colors img)) (st\<lparr>files := F\<rparr>))
                                 else if F temp2 \<noteq> None then
                                   (case os_remove P temp2 F of
                                      Inl e \<Rightarrow> Inl e
                                    | Inr F' \<Rightarrow> Inr (st\<lparr>files := F'\<rparr>))
                                 else Inr (st\<lparr>files := F\<rparr>))))))
      else Inr st0)"

text \<open>
  One round of the loop of lines 88-102. The bare \<open>except: pass\<close> swallows whatever the
  body raises: a save that fails leaves the files as they were, and a file the body wrote
  before it raised stays.
\<close>

definition try_filter :: "pil \<Rightarrow> image \<Rightarrow> nat \<Rightarrow> state \<Rightarrow> state" where
  "try_filter P img filter_type st =
     (case img_save P img None (temp3 filter_type) (files st) of
        Inl e \<Rightarrow> st
      | Inr F \<Rightarrow>
          (case getsize F (temp3 filter_type) of
             Inl e \<Rightarrow> st\<lparr>files := F\<rparr>
           | Inr size3 \<Rightarrow>
               (case Image_open P F (temp3 filter_type) of
                  Inl e \<Rightarrow> st\<lparr>files := F\<rparr>
                | Inr verify3 \<Rightarrow>
                    if pixels verify3 = pixels img
                    then record_candidate (temp3 filter_type) size3 (Filter filter_type)
                           (st\<lparr>files := F\<rparr>)
                    else st\<lparr>files := F\<rparr>)))"

definition strategy3 :: "pil \<Rightarrow> image \<Rightarrow> state \<Rightarrow> error + state" where
  "strategy3 P img st0 =
     Inr (fold (try_filter P img) [0, 1, 2, 3, 4] (st0\<lparr>attempted := attempted st0 @ [3]\<rparr>))"

definition try_bits :: "pil \<Rightarrow> image \<Rightarrow> nat \<Rightarrow> state \<Rightarrow> error + state" where
  "try_bits P img bits st =
     (if unique_colors img \<le> 2 ^ bits then
        (case img_save P img (Some bits) (temp4 bits) (files st) of
           Inl e \<Rightarrow> Inl e
         | Inr F \<Rightarrow>
             (case getsize F (temp4 bits) of
                Inl e \<Rightarrow> Inl e
              | Inr size4 \<Rightarrow>
                  (case Image_open P F (temp4 bits) of
                     Inl e \<Rightarrow> Inl e
                   | Inr verify4 \<Rightarrow>
                       if pixels verify4 = pixels img
                       then Inr (record_candidate (temp4 bits) size4 (Bits bits) (st\<lparr>files := F\<rparr>))
                       else Inr (st\<lparr>files := F\<rparr>))))
      else Inr st)"

fun for_bits :: "pil \<Rightarrow> image \<Rightarrow> nat list \<Rightarrow> state \<Rightarrow> error + state" where
  "for_bits P img [] st = Inr st"
| "for_bits P img (bits # rest) st =
     (case try_bits P img bits st of Inl e \<Rightarrow> Inl e | Inr st' \<Rightarrow> for_bits P img rest st')"

definition strategy4 :: "pil \<Rightarrow> image \<Rightarrow> state \<Rightarrow> error + state" where
  "strategy4 P img st0 =
     (if mode img = ''L''
      then for_bits P img [4, 2, 1] (st0\<lparr>attempted := attempted st0 @ [4]\<rparr>)
      else Inr st0)"

text \<open>Lines 34-123: the state when the results are about to be printed.\<close>

definition run_strategies :: "pil \<Rightarrow> image \<Rightarrow> fs \<Rightarrow> error + state" where
  "run_strategies P img F0 =
     (case strategy1 P img (init F0) of
        Inl e \<Rightarrow> Inl e
      | Inr st1 \<Rightarrow>
          (case strategy2 P img st1 of
             Inl e \<Rightarrow> Inl e
           | Inr st2 \<Rightarrow>
               (case strategy3 P img st2 of
                  Inl e \<Rightarrow> Inl e
                | Inr st3 \<Rightarrow> strategy4 P img st3)))"

subsection \<open>Results: copy, report, clean up\<close>

text \<open>
  What the two branches print, with the numbers they compute. The ratio is computed by the
  source in floating point; here it is the exact real number. \<open>short_by\<close> is
  \<open>best_size - target_bytes\<close>, which is \<open>inf\<close> when \<open>best_size\<close> is.
\<close>

datatype pynum = Finite int | Infinite

datatype report =
  Success (compressed_to: nat) (under: int) (ratio_percent: real) (saved_to: string)
| CannotAchieve (best_lossless: enat) (target: int) (short_by: pynum)

record outcome =
  returned :: "string option \<times> enat"
  printed :: report
  disk :: fs

text \<open>
  Lines 139-141: \<open>open(best_file, 'rb')\<close> raises when the file is missing;
  \<open>open(output_path, 'wb')\<close> raises when the destination cannot be opened for writing, and
  otherwise truncates the destination before \<open>src.read()\<close> runs.
\<close>

definition copy_file :: "pil \<Rightarrow> string \<Rightarrow> string \<Rightarrow> fs \<Rightarrow> error + fs" where
  "copy_file P src dst F =
     (case F src of
        None \<Rightarrow> Inl FileNotFoundError
      | Some _ \<Rightarrow>
          if writable P F dst then
            (let F1 = F(dst \<mapsto> []) in
             case F1 src of
               None \<Rightarrow> Inl FileNotFoundError
             | Some data \<Rightarrow> Inr (F1(dst \<mapsto> data)))
          else Inl WriteError)"

text \<open>
  Lines 152-157 and 178-183, the two clean-up loops: a removal that raises is swallowed by
  the \<open>except: pass\<close> of the loop, and the file stays.
\<close>

fun cleanup_others ::
    "pil \<Rightarrow> string \<Rightarrow> (string \<times> nat \<times> method_name) list \<Rightarrow> fs \<Rightarrow> fs" where
  "cleanup_others P bf [] F = F"
| "cleanup_others P bf ((f, _, _) # rest) F =
     cleanup_others P bf rest
       (if f \<noteq> bf \<and> F f \<noteq> None
        then (case os_remove P f F of Inl e \<Rightarrow> F | Inr F' \<Rightarrow> F')
        else F)"

fun cleanup_all :: "pil \<Rightarrow> (string \<times> nat \<times> method_name) list \<Rightarrow> fs \<Rightarrow> fs" where
  "cleanup_all P [] F = F"
| "cleanup_all P ((f, _, _) # rest) F =
     cleanup_all P rest
       (if F f \<noteq> None
        then (case os_remove P f F of Inl e \<Rightarrow> F | Inr F' \<Rightarrow> F')
        else F)"

definition below_target :: "enat \<Rightarrow> int \<Rightarrow> bool" where
  "below_target b t = (case b of enat n \<Rightarrow> int n < t | \<infinity> \<Rightarrow> False)"

definition minus_target :: "enat \<Rightarrow> int \<Rightarrow> pynum" where
  "minus_target b t = (case b of enat n \<Rightarrow> Finite (int n - t) | \<infinity> \<Rightarrow> Infinite)"

definition results :: "pil \<Rightarrow> nat \<Rightarrow> string \<Rightarrow> int \<Rightarrow> state \<Rightarrow> error + outcome" where
  "results P original_size output_path target_bytes st =
     (if below_target (best_size st) target_bytes then
        (case best_file st of
           None \<Rightarrow> Inl TypeError
         | Some bf \<Rightarrow>
             (case copy_file P bf output_path (files st) of
                Inl e \<Rightarrow> Inl e
              | Inr F \<Rightarrow>
                  if original_size = 0 then Inl ZeroDivisionError
                  else Inr \<lparr>returned = (Some output_path, best_size st),
                            printed = Success (the_enat (best_size st)) target_bytes
                              ((1 - real (the_enat (best_size st)) / real original_size) * 100)
                              output_path,
                            disk = cleanup_others P bf (strategies st) F\<rparr>))
      else
        Inr \<lparr>returned = (None, best_size st),
             printed = CannotAchieve (best_size st) target_bytes
                         (minus_target (best_size st) target_bytes),
             disk = cleanup_all P (strategies st) (files st)\<rparr>)"

text \<open>The whole function: lines 11-12, 24 read the input, then the strategies, then the results.\<close>

definition ultra_compress_lossless ::
    "pil \<Rightarrow> string \<Rightarrow> string \<Rightarrow> int \<Rightarrow> fs \<Rightarrow> error + outcome" where
  "ultra_compress_lossless P input_path output_path target_bytes F0 =
     (case Image_open P F0 input_path of
        Inl e \<Rightarrow> Inl e
      | Inr img \<Rightarrow>
          (case getsize F0 input_path of
             Inl e \<Rightarrow> Inl e
           | Inr original_size \<Rightarrow>
               (case run_strategies P img F0 of
                  Inl e \<Rightarrow> Inl e
                | Inr st \<Rightarrow> results P original_size output_path target_bytes st)))"

subsection \<open>What a strategy writes and what verification accepts\<close>

text \<open>
  The definitions below are used to state the theorems. \<open>file_of\<close> is the temporary file
  of a method, \<open>encoded\<close> the bytes its strategy saves, \<open>decoded\<close> the pixel list of a
  re-opened file, and \<open>verified\<close> the comparison its strategy makes (lines 48, 75, 96, 118):
  the palette strategy converts the re-opened image to the original mode first (line 74).
  \<open>applicable\<close> is the guard under which the function tries a method on an image
  (lines 59, 88, 105, 110, 111). \<open>step\<close> relates the states before and after one attempt,
  \<open>steps\<close> chains attempts, \<open>inv\<close> is the invariant of the run, \<open>catalog\<close> lists the methods
  in the order the function tries them and \<open>temp_files\<close> their files.
\<close>

definition file_of :: "method_name \<Rightarrow> string" where
  "file_of m = (case m of Direct \<Rightarrow> temp1 | Palette n \<Rightarrow> temp2 | Filter i \<Rightarrow> temp3 i | Bits b \<Rightarrow> temp4 b)"

definition encoded :: "pil \<Rightarrow> image \<Rightarrow> method_name \<Rightarrow> bytes option" where
  "encoded P img m =
     (case m of
        Direct \<Rightarrow> save_png P img None
      | Palette n \<Rightarrow> (case convert_P P img n of None \<Rightarrow> None | Some p \<Rightarrow> save_png P p None)
      | Filter i \<Rightarrow> save_png P img None
      | Bits b \<Rightarrow> save_png P img (Some b))"

definition decoded :: "pil \<Rightarrow> bytes \<Rightarrow> pixel list option" where
  "decoded P b = map_option pixels (open_image P b)"

definition decoded_converted :: "pil \<Rightarrow> string \<Rightarrow> bytes \<Rightarrow> pixel list option" where
  "decoded_converted P md b =
     (case open_image P b of None \<Rightarrow> None | Some im \<Rightarrow> map_option pixels (convert P im md))"

definition verified :: "pil \<Rightarrow> image \<Rightarrow> method_name \<Rightarrow> bytes \<Rightarrow> bool" where
  "verified P img m b =
     (case m of
        Palette n \<Rightarrow> decoded_converted P (mode img) b = Some (pixels img)
      | _ \<Rightarrow> decoded P b = Some (pixels img))"

definition applicable :: "image \<Rightarrow> method_name \<Rightarrow> bool" where
  "applicable img m =
     (case m of
        Direct \<Rightarrow> True
      | Palette n \<Rightarrow> n = unique_colors img \<and> palette_applicable img
      | Filter i \<Rightarrow> i \<in> set [0, 1, 2, 3, 4]
      | Bits b \<Rightarrow> mode img = ''L'' \<and> b \<in> set [4, 2, 1] \<and> unique_colors img \<le> 2 ^ b)"

definition step :: "pil \<Rightarrow> image \<Rightarrow> method_name \<Rightarrow> state \<Rightarrow> state \<Rightarrow> bool" where
  "step P img m st st' \<longleftrightarrow>
     (\<forall>f. f \<noteq> file_of m \<longrightarrow> files st' f = files st f) \<and>
     ((strategies st' = strategies st \<and> best_size st' = best_size st \<and> best_file st' = best_file st) \<or>
      (\<exists>b. applicable img m \<and> encoded P img m = Some b \<and> verified P img m b \<and>
           files st' (file_of m) = Some b \<and>
           strategies st' = strategies st @ [(file_of m, length b, m)] \<and>
           best_size st' = (if enat (length b) < best_size st then enat (length b) else best_size st) \<and>
           best_file st' = (if enat (length b) < best_size st then Some (file_of m) else best_file st)))"

fun steps :: "pil \<Rightarrow> image \<Rightarrow> method_name list \<Rightarrow> state \<Rightarrow> state \<Rightarrow> bool" where
  "steps P img [] s t \<longleftrightarrow> s = t"
| "steps P img (m # ms) s t \<longleftrightarrow> (\<exists>u. step P img m s u \<and> steps P img ms u t)"

definition cand_ok :: "pil \<Rightarrow> image \<Rightarrow> fs \<Rightarrow> string \<times> nat \<times> method_name \<Rightarrow> bool" where
  "cand_ok P img F c =
     (case c of (f, sz, m) \<Rightarrow>
        f = file_of m \<and> applicable img m \<and>
        (\<exists>b. F f = Some b \<and> sz = length b \<and> encoded P img m = Some b \<and> verified P img m b))"

definition first_min :: "(string \<times> nat \<times> method_name) list \<Rightarrow> enat \<Rightarrow> string option \<Rightarrow> bool" where
  "first_min cs bs bf \<longleftrightarrow>
     (cs = [] \<and> bs = \<infinity> \<and> bf = None) \<or>
     (\<exists>i<length cs. bf = Some (fst (cs ! i)) \<and> bs = enat (fst (snd (cs ! i))) \<and>
        (\<forall>j<length cs. fst (snd (cs ! i)) \<le> fst (snd (cs ! j))) \<and>
        (\<forall>j<i. fst (snd (cs ! i)) < fst (snd (cs ! j))))"

definition inv :: "pil \<Rightarrow> image \<Rightarrow> method_name list \<Rightarrow> state \<Rightarrow> bool" where
  "inv P img Ms st \<longleftrightarrow>
     (\<forall>c\<in>set (strategies st). cand_ok P img (files st) c) \<and>
     subseq (map (\<lambda>c. snd (snd c)) (strategies st)) Ms \<and>
     first_min (strategies st) (best_size st) (best_file st)"

definition catalog :: "nat \<Rightarrow> method_name list" where
  "catalog n = [Direct, Palette n, Filter 0, Filter 1, Filter 2, Filter 3, Filter 4,
                Bits 4, Bits 2, Bits 1]"

definition temp_files :: "string list" where
  "temp_files = [temp1, temp2, temp3 0, temp3 1, temp3 2, temp3 3, temp3 4,
                 temp4 4, temp4 2, temp4 1]"

subsection \<open>A small image library for the examples\<close>

text \<open>
  A toy library on one-row images, used only to run the model on concrete inputs. A file
  is a tag byte followed by the data: tag 0 is a grayscale image, one byte a pixel; tag 1 a
  palette image (the palette's length, the palette, then one index a pixel); tag 3 the same
  grayscale image preceded by a block of metadata the decoder skips; tag 4 a grayscale
  image of four bits a pixel, two pixels a byte after the number of pixels, which is what
  the toy \<open>save\<close> writes for \<open>bits=4\<close> (it keeps the low four bits of a pixel, so that a
  level above 15 does not survive); tag 2 an image in mode CMYK, which the toy \<open>save\<close>
  refuses, as PIL refuses to write CMYK as PNG. Every path can be written but
  \<open>missing/out.png\<close>, whose directory does not exist, and every file can be removed but
  \<open>locked.png\<close>.
\<close>

definition px :: "8 word \<Rightarrow> pixel" where "px b = [unat b]"

definition byte :: "pixel \<Rightarrow> 8 word" where "byte p = of_nat (hd p)"

fun pack4 :: "nat list \<Rightarrow> 8 word list" where
  "pack4 [] = []"
| "pack4 [a] = [of_nat (16 * (a mod 16))]"
| "pack4 (a # b # rest) = of_nat (16 * (a mod 16) + b mod 16) # pack4 rest"

definition unpack4 :: "nat \<Rightarrow> 8 word list \<Rightarrow> pixel list" where
  "unpack4 n ws = take n (concat (map (\<lambda>w. [[unat w div 16], [unat w mod 16]]) ws))"

definition toy_save :: "image \<Rightarrow> nat option \<Rightarrow> bytes option" where
  "toy_save im bits =
     (if mode im = ''L'' then
        (if bits = Some 4
         then Some (4 # of_nat (length (pixels im)) # pack4 (map hd (pixels im)))
         else Some (0 # map byte (pixels im)))
      else if mode im = ''P'' then
        Some (1 # of_nat (length (palette im)) # map byte (palette im) @ map byte (pixels im))
      else None)"

definition toy_open :: "bytes \<Rightarrow> image option" where
  "toy_open bs =
     (case bs of
        [] \<Rightarrow> None
      | t # rest \<Rightarrow>
          if t = 0 then
            Some \<lparr>width = length rest, height = 1, mode = ''L'', palette = [],
                  pixels = map px rest\<rparr>
          else if t = 2 then
            Some \<lparr>width = length rest, height = 1, mode = ''CMYK'', palette = [],
                  pixels = map (\<lambda>b. [unat b, 0, 0, 0]) rest\<rparr>
          else
            (case rest of
               [] \<Rightarrow> None
             | k # r \<Rightarrow>
                 if t = 1 then
                   Some \<lparr>width = length r - unat k, height = 1, mode = ''P'',
                         palette = map px (take (unat k) r), pixels = map px (drop (unat k) r)\<rparr>
                 else if t = 3 then
                   Some \<lparr>width = length r - unat k, height = 1, mode = ''L'',
                         palette = [], pixels = map px (drop (unat k) r)\<rparr>
                 else if t = 4 then
                   Some \<lparr>width = unat k, height = 1, mode = ''L'',
                         palette = [], pixels = unpack4 (unat k) r\<rparr>
                 else None))"

fun index_of :: "'a \<Rightarrow> 'a list \<Rightarrow> nat" where
  "index_of x [] = 0"
| "index_of x (y # ys) = (if x = y then 0 else Suc (index_of x ys))"

definition toy_convert_P :: "image \<Rightarrow> nat \<Rightarrow> image option" where
  "toy_convert_P im n =
     (if mode im = ''L'' \<and> 0 < n \<and> n \<le> 256 then
        Some (im\<lparr>mode := ''P'', palette := remdups (pixels im),
                 pixels := map (\<lambda>p. [index_of p (remdups (pixels im))]) (pixels im)\<rparr>)
      else None)"

definition toy_convert :: "image \<Rightarrow> string \<Rightarrow> image option" where
  "toy_convert im m =
     (if mode im = m then Some im
      else if mode im = ''P'' \<and> m = ''L'' then
        Some (im\<lparr>mode := ''L'', palette := [],
                 pixels := map (\<lambda>p. palette im ! hd p) (pixels im)\<rparr>)
      else None)"

definition toy_writable :: "fs \<Rightarrow> string \<Rightarrow> bool" where
  "toy_writable F path = (path \<noteq> ''missing/out.png'')"

definition toy_removable :: "fs \<Rightarrow> string \<Rightarrow> bool" where
  "toy_removable F path = (path \<noteq> ''locked.png'')"

definition toy :: pil where
  "toy = \<lparr>save_png = toy_save, open_image = toy_open, convert_P = toy_convert_P,
          convert = toy_convert, writable = toy_writable, removable = toy_removable\<rparr>"

text \<open>
  The inputs of the examples: \<open>gray2\<close> is the image of the file of \<open>disk0\<close>, \<open>gray6\<close> that of
  \<open>disk6\<close>, \<open>pal3\<close> that of \<open>disk_pal\<close> and \<open>cmyk2\<close>, an image in mode CMYK, that of
  \<open>disk_cmyk\<close>. \<open>corrupt\<close> is the toy library with an encoder that writes an empty image
  whatever it is given, so that no verification succeeds, and \<open>no_filter1\<close> the toy library
  on a disk where \<open>temp_filter_1.png\<close> cannot be written.
\<close>

definition gray2 :: image where
  "gray2 = \<lparr>width = 3, height = 1, mode = ''L'', palette = [], pixels = [[7], [7], [9]]\<rparr>"

definition disk0 :: fs where
  "disk0 = [''in.png'' \<mapsto> [3, 2, 0, 0, 7, 7, 9]]"

definition gray6 :: image where
  "gray6 = \<lparr>width = 6, height = 1, mode = ''L'', palette = [],
            pixels = [[1], [1], [2], [1], [2], [2]]\<rparr>"

definition disk6 :: fs where
  "disk6 = [''in.png'' \<mapsto> [0, 1, 1, 2, 1, 2, 2]]"

definition pal3 :: image where
  "pal3 = \<lparr>width = 3, height = 1, mode = ''P'', palette = [[7], [9]],
           pixels = [[0], [0], [1]]\<rparr>"


definition disk_cmyk :: fs where
  "disk_cmyk = [''in.jpg'' \<mapsto> [2, 5, 6]]"

definition cmyk2 :: image where
  "cmyk2 = \<lparr>width = 2, height = 1, mode = ''CMYK'', palette = [],
            pixels = [[5, 0, 0, 0], [6, 0, 0, 0]]\<rparr>"

definition corrupt :: pil where
  "corrupt = toy\<lparr>save_png := \<lambda>im bits. Some [0]\<rparr>"

definition no_filter1 :: pil where
  "no_filter1 = toy\<lparr>writable := \<lambda>F path. path \<noteq> ''temp_filter_1.png''\<rparr>"

section \<open>Properties\<close>

subsection \<open>Every attempt is a step, and steps keep the invariant\<close>

lemma step_refl: "step P img m st st"
  by (simp add: step_def)

lemma step_strategy1: "strategy1 P img st = Inr st' \<Longrightarrow> step P img Direct st st'"
  unfolding strategy1_def img_save_def getsize_def Image_open_def os_remove_def Let_def
  by (cases "writable P (files st) temp1"; cases "save_png P img None";
      cases "open_image P (the (save_png P img None))";
      cases "removable P ((files st)(temp1 \<mapsto> the (save_png P img None))) temp1")
     (auto simp: step_def record_candidate_def file_of_def encoded_def verified_def decoded_def
        applicable_def Let_def split: if_splits)

lemma strategy2_opens:
  assumes run: "strategy2 P img st = Inr st'" and True: "palette_applicable img"
  shows "\<exists>p b im v. writable P (files st) temp2 \<and>
           convert_P P img (unique_colors img) = Some p \<and> save_png P p None = Some b \<and>
           open_image P b = Some im \<and> convert P im (mode img) = Some v"
proof -
  from run True obtain p where p: "convert_P P img (unique_colors img) = Some p"
    by (cases "convert_P P img (unique_colors img)") (simp_all add: strategy2_def)
  from run True p have w: "writable P (files st) temp2"
    by (cases "writable P (files st) temp2") (simp_all add: strategy2_def img_save_def)
  from run True p w obtain b where b: "save_png P p None = Some b"
    by (cases "save_png P p None") (simp_all add: strategy2_def img_save_def)
  from run True p w b obtain im where im: "open_image P b = Some im"
    by (cases "open_image P b")
       (simp_all add: strategy2_def img_save_def getsize_def Image_open_def)
  from run True p w b im obtain v where v: "convert P im (mode img) = Some v"
    by (cases "convert P im (mode img)")
       (simp_all add: strategy2_def img_save_def getsize_def Image_open_def)
  from p w b im v show ?thesis by blast
qed


lemma step_strategy2:
  "strategy2 P img st = Inr st' \<Longrightarrow> step P img (Palette (unique_colors img)) st st'"
proof (cases "palette_applicable img")
  case False
  assume "strategy2 P img st = Inr st'"
  with False show ?thesis by (simp add: strategy2_def step_def)
next
  case True
  assume run: "strategy2 P img st = Inr st'"
  from strategy2_opens[OF run True] obtain p b im v where
    "writable P (files st) temp2" "convert_P P img (unique_colors img) = Some p"
    "save_png P p None = Some b" "open_image P b = Some im" "convert P im (mode img) = Some v"
    by blast
  with run True show ?thesis
    by (auto simp: strategy2_def img_save_def getsize_def Image_open_def os_remove_def
        step_def record_candidate_def file_of_def encoded_def verified_def applicable_def
        decoded_converted_def Let_def split: if_splits)
qed

lemma step_try_filter:
  "i \<in> set [0, 1, 2, 3, 4] \<Longrightarrow> step P img (Filter i) st (try_filter P img i st)"
  unfolding try_filter_def img_save_def getsize_def Image_open_def Let_def
  by (cases "writable P (files st) (temp3 i)"; cases "save_png P img None";
      cases "open_image P (the (save_png P img None))")
     (auto simp: step_def record_candidate_def file_of_def encoded_def verified_def decoded_def
        applicable_def Let_def split: if_splits)

lemma step_try_bits:
  "try_bits P img b st = Inr st' \<Longrightarrow> mode img = ''L'' \<Longrightarrow> b \<in> set [4, 2, 1] \<Longrightarrow>
     step P img (Bits b) st st'"
  unfolding try_bits_def img_save_def getsize_def Image_open_def Let_def
  by (cases "writable P (files st) (temp4 b)"; cases "save_png P img (Some b)";
      cases "open_image P (the (save_png P img (Some b)))")
     (auto simp: step_def record_candidate_def file_of_def encoded_def verified_def decoded_def
        applicable_def Let_def split: if_splits)

lemma first_min_keep:
  assumes "first_min cs bs bf" and "\<not> enat sz < bs"
  shows "first_min (cs @ [(f, sz, m)]) bs bf"
proof -
  from assms have "cs \<noteq> []" by (auto simp: first_min_def)
  with assms(1) obtain i where i: "i < length cs" "bf = Some (fst (cs ! i))"
    "bs = enat (fst (snd (cs ! i)))"
    "\<forall>j<length cs. fst (snd (cs ! i)) \<le> fst (snd (cs ! j))"
    "\<forall>j<i. fst (snd (cs ! i)) < fst (snd (cs ! j))"
    by (auto simp: first_min_def)
  from assms(2) i(3) have le: "fst (snd (cs ! i)) \<le> sz" by simp
  have "\<forall>j<length (cs @ [(f, sz, m)]). fst (snd ((cs @ [(f, sz, m)]) ! i)) \<le> fst (snd ((cs @ [(f, sz, m)]) ! j))"
    using i(1,4) le by (auto simp: nth_append less_Suc_eq)
  moreover have "\<forall>j<i. fst (snd ((cs @ [(f, sz, m)]) ! i)) < fst (snd ((cs @ [(f, sz, m)]) ! j))"
    using i(1,5) by (auto simp: nth_append)
  ultimately show ?thesis
    unfolding first_min_def using i(1,2,3)
    by (intro disjI2 exI[of _ i]) (auto simp: nth_append)
qed

lemma first_min_new:
  assumes "first_min cs bs bf" and "enat sz < bs"
  shows "first_min (cs @ [(f, sz, m)]) (enat sz) (Some f)"
proof -
  have all: "\<forall>j<length cs. sz < fst (snd (cs ! j))"
  proof (cases "cs = []")
    case True then show ?thesis by simp
  next
    case False
    with assms(1) obtain i where i: "i < length cs" "bs = enat (fst (snd (cs ! i)))"
      "\<forall>j<length cs. fst (snd (cs ! i)) \<le> fst (snd (cs ! j))"
      by (auto simp: first_min_def)
    from assms(2) i(2) have "sz < fst (snd (cs ! i))" by simp
    with i(3) show ?thesis by (meson less_le_trans)
  qed
  show ?thesis
    unfolding first_min_def using all
    by (intro disjI2 exI[of _ "length cs"]) (auto simp: nth_append less_Suc_eq less_imp_le)
qed

lemma first_min_le:
  assumes "first_min cs bs bf" and "(f, sz, m) \<in> set cs"
  shows "bs \<le> enat sz"
proof -
  from assms(2) have "cs \<noteq> []" by auto
  with assms(1) obtain i where i: "bs = enat (fst (snd (cs ! i)))"
    "\<forall>j<length cs. fst (snd (cs ! i)) \<le> fst (snd (cs ! j))"
    by (auto simp: first_min_def)
  from assms(2) obtain j where j: "j < length cs" "cs ! j = (f, sz, m)"
    by (auto simp: in_set_conv_nth)
  from i(2) j have "fst (snd (cs ! i)) \<le> sz" by fastforce
  with i(1) show ?thesis by simp
qed

lemma subseq_set_mono: "subseq xs ys \<Longrightarrow> set xs \<subseteq> set ys"
  by (induction rule: list_emb.induct) auto

lemma cand_ok_frame:
  assumes "cand_ok P img F c" and "F' (fst c) = F (fst c)"
  shows "cand_ok P img F' c"
  using assms by (cases c) (simp add: cand_ok_def)

lemma inv_step:
  assumes I: "inv P img Ms st" and S: "step P img m st st'"
    and fresh: "\<forall>m'\<in>set Ms. file_of m' \<noteq> file_of m"
  shows "inv P img (Ms @ [m]) st'"
proof -
  from I have ok: "\<forall>c\<in>set (strategies st). cand_ok P img (files st) c"
    and sub: "subseq (map (\<lambda>c. snd (snd c)) (strategies st)) Ms"
    and fm: "first_min (strategies st) (best_size st) (best_file st)"
    unfolding inv_def by blast+
  from S have frame: "\<And>f. f \<noteq> file_of m \<Longrightarrow> files st' f = files st f"
    unfolding step_def by blast
  have old: "cand_ok P img (files st') c" if c: "c \<in> set (strategies st)" for c
  proof -
    from c have "snd (snd c) \<in> set (map (\<lambda>c. snd (snd c)) (strategies st))" by simp
    with subseq_set_mono[OF sub] have "snd (snd c) \<in> set Ms" by blast
    with fresh have ne: "file_of (snd (snd c)) \<noteq> file_of m" by blast
    from ok c have c_ok: "cand_ok P img (files st) c" by blast
    then have "fst c = file_of (snd (snd c))" by (cases c) (simp add: cand_ok_def)
    with ne have "files st' (fst c) = files st (fst c)" by (simp add: frame)
    with c_ok show ?thesis by (rule cand_ok_frame)
  qed
  from S have "(strategies st' = strategies st \<and> best_size st' = best_size st \<and>
      best_file st' = best_file st) \<or>
    (\<exists>b. applicable img m \<and> encoded P img m = Some b \<and> verified P img m b \<and>
      files st' (file_of m) = Some b \<and>
      strategies st' = strategies st @ [(file_of m, length b, m)] \<and>
      best_size st' = (if enat (length b) < best_size st then enat (length b) else best_size st) \<and>
      best_file st' = (if enat (length b) < best_size st then Some (file_of m) else best_file st))"
    unfolding step_def by blast
  then show ?thesis
  proof
    assume skip: "strategies st' = strategies st \<and> best_size st' = best_size st \<and>
      best_file st' = best_file st"
    have "subseq (map (\<lambda>c. snd (snd c)) (strategies st)) (Ms @ [m])"
      using sub by (rule subseq_rev_drop_many)
    with skip old fm show ?thesis unfolding inv_def by simp
  next
    assume "\<exists>b. applicable img m \<and> encoded P img m = Some b \<and> verified P img m b \<and>
      files st' (file_of m) = Some b \<and>
      strategies st' = strategies st @ [(file_of m, length b, m)] \<and>
      best_size st' = (if enat (length b) < best_size st then enat (length b) else best_size st) \<and>
      best_file st' = (if enat (length b) < best_size st then Some (file_of m) else best_file st)"
    then obtain b where app: "applicable img m"
      and enc: "encoded P img m = Some b" and ver: "verified P img m b"
      and fl: "files st' (file_of m) = Some b"
      and ss: "strategies st' = strategies st @ [(file_of m, length b, m)]"
      and bs: "best_size st' = (if enat (length b) < best_size st then enat (length b) else best_size st)"
      and bf: "best_file st' = (if enat (length b) < best_size st then Some (file_of m) else best_file st)"
      by blast
    have new: "cand_ok P img (files st') (file_of m, length b, m)"
      using app enc ver fl by (simp add: cand_ok_def)
    have sub': "subseq (map (\<lambda>c. snd (snd c)) (strategies st')) (Ms @ [m])"
      using sub by (simp add: ss list_emb_append_mono)
    have fm': "first_min (strategies st') (best_size st') (best_file st')"
    proof (cases "enat (length b) < best_size st")
      case True
      with fm show ?thesis by (simp add: ss bs bf first_min_new)
    next
      case False
      with fm show ?thesis by (simp add: ss bs bf first_min_keep)
    qed
    have "\<forall>c\<in>set (strategies st'). cand_ok P img (files st') c"
      using old new by (simp add: ss)
    with sub' fm' show ?thesis unfolding inv_def by simp
  qed
qed

lemma inv_init: "inv P img [] (init F)"
  by (simp add: inv_def init_def first_min_def)

lemma step_attempted [simp]:
  "step P img m (st\<lparr>attempted := a\<rparr>) st' = step P img m st st'"
  by (simp add: step_def)

lemma strategy3_steps:
  assumes "strategy3 P img st2 = Inr st3"
  shows "\<exists>s0 s1 s2 s3. step P img (Filter 0) st2 s0 \<and> step P img (Filter 1) s0 s1 \<and>
    step P img (Filter 2) s1 s2 \<and> step P img (Filter 3) s2 s3 \<and> step P img (Filter 4) s3 st3"
proof -
  let ?a = "st2\<lparr>attempted := attempted st2 @ [3]\<rparr>"
  let ?s0 = "try_filter P img 0 ?a"
  let ?s1 = "try_filter P img 1 ?s0"
  let ?s2 = "try_filter P img 2 ?s1"
  let ?s3 = "try_filter P img 3 ?s2"
  from assms have "st3 = try_filter P img 4 ?s3" by (simp add: strategy3_def)
  moreover have "step P img (Filter 0) st2 ?s0" using step_try_filter[of 0 P img ?a] by simp
  moreover have "step P img (Filter 1) ?s0 ?s1" by (rule step_try_filter) simp
  moreover have "step P img (Filter 2) ?s1 ?s2" by (rule step_try_filter) simp
  moreover have "step P img (Filter 3) ?s2 ?s3" by (rule step_try_filter) simp
  moreover have "step P img (Filter 4) ?s3 (try_filter P img 4 ?s3)"
    by (rule step_try_filter) simp
  ultimately show ?thesis by blast
qed

lemma strategy4_L:
  "mode img = ''L'' \<Longrightarrow>
     strategy4 P img s = for_bits P img [4, 2, 1] (s\<lparr>attempted := attempted s @ [4]\<rparr>)"
  by (simp add: strategy4_def)

lemma strategy4_steps:
  assumes "strategy4 P img st3 = Inr st"
  shows "\<exists>sa sb. step P img (Bits 4) st3 sa \<and> step P img (Bits 2) sa sb \<and>
    step P img (Bits 1) sb st"
proof (cases "mode img = ''L''")
  case False
  with assms have "st = st3" by (simp add: strategy4_def)
  then show ?thesis using step_refl by blast
next
  case True
  let ?a = "st3\<lparr>attempted := attempted st3 @ [4]\<rparr>"
  from assms True have run: "for_bits P img [4, 2, 1] ?a = Inr st" by (simp add: strategy4_def)
  then obtain sa where a: "try_bits P img 4 ?a = Inr sa" and r1: "for_bits P img [2, 1] sa = Inr st"
    by (cases "try_bits P img 4 ?a") simp_all
  then obtain sb where b: "try_bits P img 2 sa = Inr sb" and r2: "for_bits P img [1] sb = Inr st"
    by (cases "try_bits P img 2 sa") simp_all
  then have c: "try_bits P img 1 sb = Inr st"
    by (cases "try_bits P img 1 sb") simp_all
  have "step P img (Bits 4) st3 sa" using step_try_bits[OF a True] by simp
  moreover have "step P img (Bits 2) sa sb" using step_try_bits[OF b True] by simp
  moreover have "step P img (Bits 1) sb st" using step_try_bits[OF c True] by simp
  ultimately show ?thesis by blast
qed

lemma run_steps:
  assumes "run_strategies P img F0 = Inr st"
  shows "\<exists>st1 st2 st3. strategy1 P img (init F0) = Inr st1 \<and> strategy2 P img st1 = Inr st2 \<and>
    strategy3 P img st2 = Inr st3 \<and> strategy4 P img st3 = Inr st"
proof -
  from assms obtain st1 where 1: "strategy1 P img (init F0) = Inr st1"
    by (cases "strategy1 P img (init F0)") (simp_all add: run_strategies_def)
  with assms obtain st2 where 2: "strategy2 P img st1 = Inr st2"
    by (cases "strategy2 P img st1") (simp_all add: run_strategies_def)
  with assms 1 obtain st3 where 3: "strategy3 P img st2 = Inr st3"
    by (cases "strategy3 P img st2") (simp_all add: run_strategies_def)
  with assms 1 2 have "strategy4 P img st3 = Inr st" by (simp add: run_strategies_def)
  with 1 2 3 show ?thesis by blast
qed

lemma file_of_distinct:
  "distinct (map file_of (catalog n))"
  by (simp add: catalog_def file_of_def temp1_def temp2_def temp3_def temp4_def digit_def)

lemma inv_steps:
  assumes "inv P img Ms st" and "step P img m st st'" and "distinct (map file_of (Ms @ [m]))"
  shows "inv P img (Ms @ [m]) st'"
  using assms(1,2)
proof (rule inv_step)
  from assms(3) have "file_of m \<notin> file_of ` set Ms" by simp
  then show "\<forall>m'\<in>set Ms. file_of m' \<noteq> file_of m" by (metis image_eqI)
qed

lemma inv_run:
  assumes "run_strategies P img F0 = Inr st"
  shows "inv P img (catalog (unique_colors img)) st"
proof -
  let ?n = "unique_colors img"
  from run_steps[OF assms] obtain st1 st2 st3 where
    1: "strategy1 P img (init F0) = Inr st1" and 2: "strategy2 P img st1 = Inr st2" and
    3: "strategy3 P img st2 = Inr st3" and 4: "strategy4 P img st3 = Inr st" by blast
  from strategy3_steps[OF 3] obtain s0 s1 s2 s3 where
    f0: "step P img (Filter 0) st2 s0" and f1: "step P img (Filter 1) s0 s1" and
    f2: "step P img (Filter 2) s1 s2" and f3: "step P img (Filter 3) s2 s3" and
    f4: "step P img (Filter 4) s3 st3"
    by blast
  from strategy4_steps[OF 4] obtain sa sb where
    b4: "step P img (Bits 4) st3 sa" and b2: "step P img (Bits 2) sa sb" and
    b1: "step P img (Bits 1) sb st"
    by blast
  have d: "distinct (map file_of (catalog ?n))" by (rule file_of_distinct)
  have i1: "inv P img [Direct] st1"
    using inv_steps[OF inv_init step_strategy1[OF 1]] by simp
  have i2: "inv P img [Direct, Palette ?n] st2"
    using inv_steps[OF i1 step_strategy2[OF 2]] d by (simp add: catalog_def)
  have i3: "inv P img [Direct, Palette ?n, Filter 0] s0"
    using inv_steps[OF i2 f0] d by (simp add: catalog_def)
  have i4: "inv P img [Direct, Palette ?n, Filter 0, Filter 1] s1"
    using inv_steps[OF i3 f1] d by (simp add: catalog_def)
  have i5: "inv P img [Direct, Palette ?n, Filter 0, Filter 1, Filter 2] s2"
    using inv_steps[OF i4 f2] d by (simp add: catalog_def)
  have i6: "inv P img [Direct, Palette ?n, Filter 0, Filter 1, Filter 2, Filter 3] s3"
    using inv_steps[OF i5 f3] d by (simp add: catalog_def)
  have i7: "inv P img [Direct, Palette ?n, Filter 0, Filter 1, Filter 2, Filter 3, Filter 4] st3"
    using inv_steps[OF i6 f4] d by (simp add: catalog_def)
  have i8: "inv P img [Direct, Palette ?n, Filter 0, Filter 1, Filter 2, Filter 3, Filter 4,
      Bits 4] sa"
    using inv_steps[OF i7 b4] d by (simp add: catalog_def)
  have i9: "inv P img [Direct, Palette ?n, Filter 0, Filter 1, Filter 2, Filter 3, Filter 4,
      Bits 4, Bits 2] sb"
    using inv_steps[OF i8 b2] d by (simp add: catalog_def)
  have "inv P img [Direct, Palette ?n, Filter 0, Filter 1, Filter 2, Filter 3, Filter 4,
      Bits 4, Bits 2, Bits 1] st"
    using inv_steps[OF i9 b1] d by (simp add: catalog_def)
  then show ?thesis by (simp add: catalog_def)
qed

subsection \<open>Files and candidates along a run\<close>

lemma catalog_files: "map file_of (catalog n) = temp_files"
  by (simp add: catalog_def temp_files_def file_of_def)

lemma steps_Cons: "step P img m s u \<Longrightarrow> steps P img ms u t \<Longrightarrow> steps P img (m # ms) s t"
  by auto

lemma run_catalog_steps:
  assumes "run_strategies P img F0 = Inr st"
  shows "\<exists>st1 st2. strategy1 P img (init F0) = Inr st1 \<and> strategy2 P img st1 = Inr st2 \<and>
           steps P img (drop 2 (catalog (unique_colors img))) st2 st"
proof -
  from run_steps[OF assms] obtain st1 st2 st3 where
    1: "strategy1 P img (init F0) = Inr st1" and 2: "strategy2 P img st1 = Inr st2" and
    3: "strategy3 P img st2 = Inr st3" and 4: "strategy4 P img st3 = Inr st" by blast
  from strategy3_steps[OF 3] obtain s0 s1 s2 s3 where
    f0: "step P img (Filter 0) st2 s0" and f1: "step P img (Filter 1) s0 s1" and
    f2: "step P img (Filter 2) s1 s2" and f3: "step P img (Filter 3) s2 s3" and
    f4: "step P img (Filter 4) s3 st3"
    by blast
  from strategy4_steps[OF 4] obtain sa sb where
    b4: "step P img (Bits 4) st3 sa" and b2: "step P img (Bits 2) sa sb" and
    b1: "step P img (Bits 1) sb st"
    by blast
  have "steps P img [] st st" by simp
  note steps_Cons[OF b1 this]
  note steps_Cons[OF b2 this]
  note steps_Cons[OF b4 this]
  note steps_Cons[OF f4 this]
  note steps_Cons[OF f3 this]
  note steps_Cons[OF f2 this]
  note steps_Cons[OF f1 this]
  note steps_Cons[OF f0 this]
  then have "steps P img (drop 2 (catalog (unique_colors img))) st2 st"
    by (simp only: catalog_def drop_Suc_Cons drop_0 numeral_2_eq_2)
  with 1 2 show ?thesis by blast
qed

lemma steps_frame:
  "steps P img ms s t \<Longrightarrow> f \<notin> file_of ` set ms \<Longrightarrow> files t f = files s f"
proof (induction ms arbitrary: s)
  case Nil
  then show ?case by simp
next
  case (Cons m ms)
  from Cons.prems(1) obtain u where u: "step P img m s u" "steps P img ms u t" by auto
  from Cons.prems(2) have "f \<noteq> file_of m" "f \<notin> file_of ` set ms" by auto
  with u Cons.IH[of u] show ?case by (simp add: step_def)
qed

lemma step_extend:
  "step P img m s u \<Longrightarrow>
     \<exists>new. strategies u = strategies s @ new \<and> (\<forall>c\<in>set new. snd (snd c) = m)"
  unfolding step_def by (elim conjE disjE exE) auto

lemma steps_extend:
  "steps P img ms s t \<Longrightarrow>
     \<exists>new. strategies t = strategies s @ new \<and> (\<forall>c\<in>set new. snd (snd c) \<in> set ms)"
proof (induction ms arbitrary: s)
  case Nil
  then show ?case by simp
next
  case (Cons m ms)
  from Cons.prems obtain u where u: "step P img m s u" "steps P img ms u t" by auto
  from step_extend[OF u(1)] obtain n1 where
    n1: "strategies u = strategies s @ n1" "\<forall>c\<in>set n1. snd (snd c) = m" by blast
  from Cons.IH[OF u(2)] obtain n2 where
    n2: "strategies t = strategies u @ n2" "\<forall>c\<in>set n2. snd (snd c) \<in> set ms" by blast
  from n1 n2 have "strategies t = strategies s @ (n1 @ n2)" by simp
  moreover from n1(2) n2(2) have "\<forall>c\<in>set (n1 @ n2). snd (snd c) \<in> set (m # ms)" by auto
  ultimately show ?case by blast
qed

lemma strategy1_frame:
  "strategy1 P img s = Inr t \<Longrightarrow> f \<noteq> temp1 \<Longrightarrow> files t f = files s f"
  using step_strategy1[of P img s t] by (simp add: step_def file_of_def)

lemma strategy2_frame:
  "strategy2 P img s = Inr t \<Longrightarrow> f \<noteq> temp2 \<Longrightarrow> files t f = files s f"
  using step_strategy2[of P img s t] by (simp add: step_def file_of_def)

lemma later_files:
  "f \<notin> set temp_files \<or> f = temp1 \<or> f = temp2 \<Longrightarrow> f \<notin> file_of ` set (drop 2 (catalog n))"
  by (auto simp: catalog_def temp_files_def file_of_def temp1_def temp2_def temp3_def temp4_def)

lemma run_frame:
  assumes "run_strategies P img F0 = Inr st" and "f \<notin> set temp_files"
  shows "files st f = F0 f"
proof -
  from run_catalog_steps[OF assms(1)] obtain st1 st2 where
    1: "strategy1 P img (init F0) = Inr st1" and 2: "strategy2 P img st1 = Inr st2" and
    s: "steps P img (drop 2 (catalog (unique_colors img))) st2 st" by blast
  from assms(2) have ne: "f \<noteq> temp1" "f \<noteq> temp2" by (auto simp: temp_files_def)
  from strategy1_frame[OF 1 ne(1)] have a: "files st1 f = F0 f" by (simp add: init_def)
  from strategy2_frame[OF 2 ne(2)] a have b: "files st2 f = F0 f" by simp
  from assms(2) have "f \<notin> file_of ` set (drop 2 (catalog (unique_colors img)))"
    by (simp add: later_files)
  from steps_frame[OF s this] b show ?thesis by simp
qed

lemma ranked_files:
  assumes "run_strategies P img F0 = Inr st" and "c \<in> set (strategies st)"
  shows "cand_ok P img (files st) c \<and> snd (snd c) \<in> set (catalog (unique_colors img)) \<and>
    fst c \<in> set temp_files"
proof -
  from inv_run[OF assms(1)] have
    ok: "\<forall>c\<in>set (strategies st). cand_ok P img (files st) c" and
    sub: "subseq (map (\<lambda>c. snd (snd c)) (strategies st)) (catalog (unique_colors img))"
    unfolding inv_def by blast+
  from ok assms(2) have c: "cand_ok P img (files st) c" by blast
  from assms(2) have "snd (snd c) \<in> set (map (\<lambda>c. snd (snd c)) (strategies st))" by simp
  with subseq_set_mono[OF sub] have m: "snd (snd c) \<in> set (catalog (unique_colors img))" by blast
  from c have "fst c = file_of (snd (snd c))" by (cases c) (simp add: cand_ok_def)
  with m have "fst c \<in> set (map file_of (catalog (unique_colors img)))" by simp
  then have "fst c \<in> set temp_files" by (simp only: catalog_files)
  with c m show ?thesis by blast
qed

subsection \<open>A verified encoding of an attempted method is recorded\<close>

lemma step_mono: "step P img m s u \<Longrightarrow> set (strategies s) \<subseteq> set (strategies u)"
  using step_extend[of P img m s u] by auto

lemma steps_mono: "steps P img ms s t \<Longrightarrow> set (strategies s) \<subseteq> set (strategies t)"
  using steps_extend[of P img ms s t] by auto

lemma strategy1_result:
  assumes "strategy1 P img s = Inr t" and "save_png P img None = Some b"
    and "decoded P b = Some (pixels img)"
  shows "strategies t = strategies s @ [(temp1, length b, Direct)] \<and> files t temp1 = Some b"
proof -
  from assms(3) obtain im where im: "open_image P b = Some im" "pixels im = pixels img"
    by (auto simp: decoded_def)
  from assms(1) have w: "writable P (files s) temp1"
    by (cases "writable P (files s) temp1") (simp_all add: strategy1_def img_save_def)
  from assms(1,2) im w show ?thesis
    by (auto simp: strategy1_def img_save_def getsize_def Image_open_def Let_def
        record_candidate_def)
qed

lemma strategy2_result:
  assumes run: "strategy2 P img s = Inr t" and True: "palette_applicable img"
  shows "\<exists>p b. convert_P P img (unique_colors img) = Some p \<and> save_png P p None = Some b \<and>
     (decoded_converted P (mode img) b = Some (pixels img) \<longrightarrow>
        strategies t = strategies s @ [(temp2, length b, Palette (unique_colors img))])"
proof -
  from strategy2_opens[OF run True] obtain p b im v where o:
    "writable P (files s) temp2" "convert_P P img (unique_colors img) = Some p"
    "save_png P p None = Some b" "open_image P b = Some im" "convert P im (mode img) = Some v"
    by blast
  with run True have
    "decoded_converted P (mode img) b = Some (pixels img) \<longrightarrow>
        strategies t = strategies s @ [(temp2, length b, Palette (unique_colors img))]"
    by (auto simp: strategy2_def img_save_def getsize_def Image_open_def
        record_candidate_def decoded_converted_def Let_def split: if_splits)
  with o show ?thesis by blast
qed

lemma try_filter_mono: "set (strategies s) \<subseteq> set (strategies (try_filter P img i s))"
  unfolding try_filter_def img_save_def getsize_def Image_open_def Let_def
  by (cases "writable P (files s) (temp3 i)"; cases "save_png P img None";
      cases "open_image P (the (save_png P img None))")
     (auto simp: record_candidate_def Let_def split: if_splits)

lemma try_filter_listed:
  assumes "save_png P img None = Some b" and "decoded P b = Some (pixels img)"
    and "writable P (files s) (temp3 i)"
  shows "(temp3 i, length b, Filter i) \<in> set (strategies (try_filter P img i s))"
proof -
  from assms(2) obtain im where "open_image P b = Some im" "pixels im = pixels img"
    by (auto simp: decoded_def)
  with assms(1,3) show ?thesis
    by (auto simp: try_filter_def img_save_def getsize_def Image_open_def Let_def
        record_candidate_def)
qed

lemma fold_try_filter_mono:
  "set (strategies s) \<subseteq> set (strategies (fold (try_filter P img) ns s))"
proof (induction ns arbitrary: s)
  case Nil
  show ?case by simp
next
  case (Cons n ns)
  from try_filter_mono[of s P img n] Cons[of "try_filter P img n s"] show ?case by auto
qed

lemma fold_try_filter_listed:
  assumes "save_png P img None = Some b" and "decoded P b = Some (pixels img)"
    and "\<forall>F. writable P F (temp3 i)" and "i \<in> set ns"
  shows "(temp3 i, length b, Filter i) \<in> set (strategies (fold (try_filter P img) ns s))"
  using assms(4)
proof (induction ns arbitrary: s)
  case Nil
  then show ?case by simp
next
  case (Cons n ns)
  show ?case
  proof (cases "i = n")
    case True
    from assms(3) have "writable P (files s) (temp3 i)" by simp
    from try_filter_listed[OF assms(1,2) this] True
    have "(temp3 i, length b, Filter i) \<in> set (strategies (try_filter P img n s))" by simp
    with fold_try_filter_mono[of "try_filter P img n s" P img ns] show ?thesis by auto
  next
    case False
    with Cons.prems have "i \<in> set ns" by simp
    from Cons.IH[OF this, of "try_filter P img n s"] show ?thesis by simp
  qed
qed

lemma try_bits_mono:
  "try_bits P img k s = Inr t \<Longrightarrow> set (strategies s) \<subseteq> set (strategies t)"
  unfolding try_bits_def img_save_def getsize_def Image_open_def Let_def
  by (cases "writable P (files s) (temp4 k)"; cases "save_png P img (Some k)";
      cases "open_image P (the (save_png P img (Some k)))")
     (auto simp: record_candidate_def Let_def split: if_splits)

lemma try_bits_listed:
  assumes "try_bits P img k s = Inr t" and "unique_colors img \<le> 2 ^ k"
    and "save_png P img (Some k) = Some b" and "decoded P b = Some (pixels img)"
  shows "(temp4 k, length b, Bits k) \<in> set (strategies t)"
proof -
  from assms(4) obtain im where im: "open_image P b = Some im" "pixels im = pixels img"
    by (auto simp: decoded_def)
  from assms(1,2) have w: "writable P (files s) (temp4 k)"
    by (cases "writable P (files s) (temp4 k)") (simp_all add: try_bits_def img_save_def)
  from assms(1,2,3) im w show ?thesis
    by (auto simp: try_bits_def img_save_def getsize_def Image_open_def Let_def
        record_candidate_def)
qed

lemma for_bits_mono:
  "for_bits P img ks s = Inr t \<Longrightarrow> set (strategies s) \<subseteq> set (strategies t)"
proof (induction ks arbitrary: s)
  case Nil
  then show ?case by simp
next
  case (Cons k ks)
  from Cons.prems obtain u where u: "try_bits P img k s = Inr u" "for_bits P img ks u = Inr t"
    by (cases "try_bits P img k s") simp_all
  from try_bits_mono[OF u(1)] Cons.IH[OF u(2)] show ?case by auto
qed

lemma for_bits_listed:
  assumes "unique_colors img \<le> 2 ^ k"
    and "save_png P img (Some k) = Some b" and "decoded P b = Some (pixels img)"
  shows "for_bits P img ks s = Inr t \<Longrightarrow> k \<in> set ks \<Longrightarrow>
           (temp4 k, length b, Bits k) \<in> set (strategies t)"
proof (induction ks arbitrary: s)
  case Nil
  then show ?case by simp
next
  case (Cons n ks)
  from Cons.prems(1) obtain u where
    u: "try_bits P img n s = Inr u" "for_bits P img ks u = Inr t"
    by (cases "try_bits P img n s") simp_all
  show ?case
  proof (cases "k = n")
    case True
    with u(1) have "try_bits P img k s = Inr u" by simp
    from try_bits_listed[OF this assms] for_bits_mono[OF u(2)] show ?thesis by auto
  next
    case False
    with Cons.prems(2) have "k \<in> set ks" by simp
    from Cons.IH[OF u(2) this] show ?thesis .
  qed
qed

lemma verified_listed:
  assumes run: "run_strategies P img F0 = Inr st" and app: "applicable img m"
    and enc: "encoded P img m = Some b" and ver: "verified P img m b"
    and wr: "\<forall>i F. m = Filter i \<longrightarrow> writable P F (temp3 i)"
  shows "(file_of m, length b, m) \<in> set (strategies st)"
proof -
  from run_steps[OF run] obtain st1 st2 st3 where
    1: "strategy1 P img (init F0) = Inr st1" and 2: "strategy2 P img st1 = Inr st2" and
    3: "strategy3 P img st2 = Inr st3" and 4: "strategy4 P img st3 = Inr st" by blast
  have m2: "set (strategies st1) \<subseteq> set (strategies st2)"
    using step_strategy2[OF 2] by (rule step_mono)
  have m3: "set (strategies st2) \<subseteq> set (strategies st3)"
    using 3 fold_try_filter_mono[of "st2\<lparr>attempted := attempted st2 @ [3]\<rparr>" P img "[0, 1, 2, 3, 4]"]
    by (auto simp: strategy3_def)
  have m4: "set (strategies st3) \<subseteq> set (strategies st)"
  proof (cases "mode img = ''L''")
    case True
    with 4 have "for_bits P img [4, 2, 1] (st3\<lparr>attempted := attempted st3 @ [4]\<rparr>) = Inr st"
      by (simp only: strategy4_L)
    from for_bits_mono[OF this] show ?thesis by simp
  next
    case False
    with 4 show ?thesis by (simp add: strategy4_def)
  qed
  show ?thesis
  proof (cases m)
    case Direct
    with enc ver have "save_png P img None = Some b" "decoded P b = Some (pixels img)"
      by (simp_all add: encoded_def verified_def)
    from strategy1_result[OF 1 this] have "(temp1, length b, Direct) \<in> set (strategies st1)"
      by simp
    with m2 m3 m4 Direct show ?thesis by (auto simp: file_of_def)
  next
    case (Palette n)
    with app have n: "n = unique_colors img" and pa: "palette_applicable img"
      by (simp_all add: applicable_def)
    from strategy2_result[OF 2 pa] obtain p b' where
      p: "convert_P P img (unique_colors img) = Some p" "save_png P p None = Some b'"
      "decoded_converted P (mode img) b' = Some (pixels img) \<longrightarrow>
         strategies st2 = strategies st1 @ [(temp2, length b', Palette (unique_colors img))]"
      by blast
    from enc Palette n p(1,2) have "b' = b" by (simp add: encoded_def)
    moreover from ver Palette have "decoded_converted P (mode img) b = Some (pixels img)"
      by (simp add: verified_def)
    ultimately have "(temp2, length b, Palette (unique_colors img)) \<in> set (strategies st2)"
      using p(3) by simp
    with m3 m4 Palette n show ?thesis by (auto simp: file_of_def)
  next
    case (Filter i)
    with enc ver have s: "save_png P img None = Some b" "decoded P b = Some (pixels img)"
      by (simp_all add: encoded_def verified_def)
    from wr Filter have w: "\<forall>F. writable P F (temp3 i)" by simp
    from app Filter have i: "i \<in> set [0, 1, 2, 3, 4]" by (simp add: applicable_def)
    from 3 have "st3 = fold (try_filter P img) [0, 1, 2, 3, 4]
        (st2\<lparr>attempted := attempted st2 @ [3]\<rparr>)"
      by (simp only: strategy3_def sum.inject)
    with fold_try_filter_listed[OF s w i] have "(temp3 i, length b, Filter i) \<in> set (strategies st3)"
      by simp
    with m4 Filter show ?thesis by (auto simp: file_of_def)
  next
    case (Bits k)
    with app have L: "mode img = ''L''" and k: "k \<in> set [4, 2, 1]"
      and u: "unique_colors img \<le> 2 ^ k"
      by (simp_all add: applicable_def)
    from enc ver Bits have s: "save_png P img (Some k) = Some b" "decoded P b = Some (pixels img)"
      by (simp_all add: encoded_def verified_def)
    from 4 L have "for_bits P img [4, 2, 1] (st3\<lparr>attempted := attempted st3 @ [4]\<rparr>) = Inr st"
      by (simp only: strategy4_L)
    from for_bits_listed[OF u s this k] Bits show ?thesis by (simp add: file_of_def)
  qed
qed

subsection \<open>The strategies that are entered\<close>









subsection \<open>The results\<close>


lemma cleanup_all_frame: "f \<notin> fst ` set cs \<Longrightarrow> cleanup_all P cs F f = F f"
  by (induction P cs F rule: cleanup_all.induct) (auto simp: os_remove_def)

lemma ranked_names:
  assumes "run_strategies P img F0 = Inr st" and "f \<notin> set temp_files"
  shows "f \<notin> fst ` set (strategies st)"
  using ranked_files[OF assms(1)] assms(2) by auto

lemma ultra_results:
  assumes "F0 input_path = Some original" and "open_image P original = Some img"
    and "run_strategies P img F0 = Inr st"
  shows "ultra_compress_lossless P input_path output_path target_bytes F0 =
           results P (length original) output_path target_bytes st"
  using assms by (simp add: ultra_compress_lossless_def Image_open_def getsize_def)


lemma run_winner:
  assumes run: "run_strategies P img F0 = Inr st" and bs: "best_size st = enat n"
  shows "\<exists>bf m b. best_file st = Some bf \<and> (bf, n, m) \<in> set (strategies st) \<and>
           files st bf = Some b \<and> length b = n \<and> encoded P img m = Some b \<and>
           verified P img m b \<and> bf \<in> set temp_files"
proof -
  from inv_run[OF run] have fm: "first_min (strategies st) (best_size st) (best_file st)"
    unfolding inv_def by blast
  with bs obtain i where i: "i < length (strategies st)"
    "best_file st = Some (fst (strategies st ! i))" "n = fst (snd (strategies st ! i))"
    by (auto simp: first_min_def)
  let ?c = "strategies st ! i"
  from i(1) have mem: "?c \<in> set (strategies st)" by simp
  obtain bf m where c: "?c = (bf, n, m)" using i(3) by (cases ?c) auto
  from ranked_files[OF run mem] c have "cand_ok P img (files st) (bf, n, m)" "bf \<in> set temp_files"
    by auto
  then obtain b where "files st bf = Some b" "n = length b" "encoded P img m = Some b"
    "verified P img m b" by (auto simp: cand_ok_def)
  with mem c i(2) \<open>bf \<in> set temp_files\<close> show ?thesis by auto
qed


subsection \<open>The model on concrete images\<close>

lemmas model_defs = run_strategies_def strategy1_def strategy2_def strategy3_def strategy4_def
      try_filter_def try_bits_def img_save_def getsize_def Image_open_def os_remove_def
      record_candidate_def init_def unique_colors_def palette_applicable_def
      temp1_def temp2_def temp3_def temp4_def digit_def Let_def
lemmas toy_defs = toy_def toy_save_def toy_open_def toy_convert_P_def
      toy_convert_def toy_writable_def toy_removable_def unpack4_def px_def byte_def

lemma toy_inputs:
  "open_image toy [3, 2, 0, 0, 7, 7, 9] = Some gray2"
  "open_image toy [0, 1, 1, 2, 1, 2, 2] = Some gray6"
  "open_image toy [1, 2, 7, 9, 0, 0, 1] = Some pal3"
  "open_image toy [2, 5, 6] = Some cmyk2"
  "open_image corrupt [3, 2, 0, 0, 7, 7, 9] = Some gray2"
  by (simp_all add: toy_defs corrupt_def gray2_def gray6_def pal3_def cmyk2_def)

lemma outside_temp_files: "''out.png'' \<notin> set temp_files"
  by (simp add: temp_files_def temp1_def temp2_def temp3_def temp4_def digit_def)

lemma toy_run:
  "\<exists>st. run_strategies toy gray2 disk0 = Inr st \<and>
     strategies st = [(temp1, 4, Direct), (temp2, 7, Palette 2), (temp3 0, 4, Filter 0),
       (temp3 1, 4, Filter 1), (temp3 2, 4, Filter 2), (temp3 3, 4, Filter 3),
       (temp3 4, 4, Filter 4), (temp4 4, 4, Bits 4), (temp4 2, 4, Bits 2), (temp4 1, 4, Bits 1)] \<and>
     best_size st = enat 4 \<and> best_file st = Some temp1 \<and> attempted st = [1, 2, 3, 4] \<and>
     files st temp1 = Some [0, 7, 7, 9] \<and> files st temp2 = Some [1, 2, 7, 9, 0, 0, 1] \<and>
     files st (temp3 0) = Some [0, 7, 7, 9]"
  by (simp add: model_defs toy_defs gray2_def disk0_def)

lemma toy_run6:
  "\<exists>st. run_strategies toy gray6 disk6 = Inr st \<and>
     strategies st = [(temp1, 7, Direct), (temp2, 10, Palette 2), (temp3 0, 7, Filter 0),
       (temp3 1, 7, Filter 1), (temp3 2, 7, Filter 2), (temp3 3, 7, Filter 3),
       (temp3 4, 7, Filter 4), (temp4 4, 5, Bits 4), (temp4 2, 7, Bits 2), (temp4 1, 7, Bits 1)] \<and>
     best_size st = enat 5 \<and> best_file st = Some (temp4 4) \<and>
     files st (temp4 4) = Some [4, 6, 17, 33, 34]"
  by (simp add: model_defs toy_defs gray6_def disk6_def)


text \<open>
  A write that fails inside the filter loop is swallowed: the run goes on, without the
  candidate of that filter.
\<close>

lemma swallowed_filter_run:
  "\<exists>st. run_strategies no_filter1 gray2 disk0 = Inr st \<and>
     map (\<lambda>c. snd (snd c)) (strategies st) =
       [Direct, Palette 2, Filter 0, Filter 2, Filter 3, Filter 4, Bits 4, Bits 2, Bits 1] \<and>
     best_file st = Some temp1 \<and> files st (temp3 1) = None"
  by (simp add: model_defs toy_defs no_filter1_def gray2_def disk0_def)


lemma ultra_cases:
  assumes "ultra_compress_lossless P input_path output_path target_bytes F0 = Inr out"
  shows "\<exists>original img st. F0 input_path = Some original \<and> open_image P original = Some img \<and>
           run_strategies P img F0 = Inr st \<and>
           results P (length original) output_path target_bytes st = Inr out"
proof -
  from assms obtain original where o: "F0 input_path = Some original"
    by (cases "F0 input_path") (simp_all add: ultra_compress_lossless_def Image_open_def)
  with assms obtain img where i: "open_image P original = Some img"
    by (cases "open_image P original") (simp_all add: ultra_compress_lossless_def Image_open_def)
  with assms o obtain st where s: "run_strategies P img F0 = Inr st"
    by (cases "run_strategies P img F0")
       (simp_all add: ultra_compress_lossless_def Image_open_def getsize_def)
  with assms o i have "results P (length original) output_path target_bytes st = Inr out"
    by (simp add: ultra_compress_lossless_def Image_open_def getsize_def)
  with o i s show ?thesis by blast
qed

lemma results_mono:
  assumes r: "results P original_size output_path t st = Inr out"
    and s: "printed out = Success n u r p" and le: "t \<le> t'"
  shows "\<exists>out'. results P original_size output_path t' st = Inr out' \<and>
           printed out' = Success n t' r p \<and> returned out' = returned out \<and>
           disk out' = disk out \<and> u = t \<and> p = output_path"
proof -
  from r s have bt: "below_target (best_size st) t"
    by (cases "below_target (best_size st) t") (auto simp: results_def)
  with le have bt': "below_target (best_size st) t'"
    by (auto simp: below_target_def split: enat.splits)
  from r bt obtain bf where bf: "best_file st = Some bf"
    by (cases "best_file st") (simp_all add: results_def)
  from r bt bf obtain F where F: "copy_file P bf output_path (files st) = Inr F"
    by (cases "copy_file P bf output_path (files st)") (simp_all add: results_def)
  from r bt bf F have z: "original_size \<noteq> 0"
    by (cases "original_size = 0") (simp_all add: results_def)
  from r s bt bt' bf F z show ?thesis by (auto simp: results_def)
qed

subsection \<open>Selection\<close>

text \<open>
  C1. Let a run reach the results. Every method the function tries on the image
  (\<open>applicable\<close>) whose encoding passes the comparison of its strategy (\<open>verified\<close>) is a
  candidate of the list \<open>strategies\<close>, and the selected size is at most its size; for a
  filter variant this needs its temporary file to be writable, because the loop of lines
  88-102 swallows a failed write, and for the other methods a failed write ends the run.
  Conversely every candidate of the list is such a verified encoding, stored in its
  temporary file, and the candidates come in the order of \<open>catalog\<close>, the order in which the
  strategies are tried. When the list is not empty, the selected file and size are those of
  a candidate whose size is at most every candidate's size and strictly less than the size
  of every candidate before it in the list: the first candidate of minimal size, because a
  later candidate replaces the running best only when it is strictly smaller.
\<close>

theorem selected_is_first_minimum:
  assumes "run_strategies P img F0 = Inr st"
  shows "(\<forall>m b. applicable img m \<and> encoded P img m = Some b \<and> verified P img m b \<and>
            (\<forall>i F. m = Filter i \<longrightarrow> writable P F (temp3 i)) \<longrightarrow>
            (file_of m, length b, m) \<in> set (strategies st) \<and>
            best_size st \<le> enat (length b)) \<and>
         (\<forall>c\<in>set (strategies st). cand_ok P img (files st) c) \<and>
         subseq (map (\<lambda>c. snd (snd c)) (strategies st)) (catalog (unique_colors img)) \<and>
         (strategies st \<noteq> [] \<longrightarrow>
            (\<exists>i<length (strategies st).
               best_file st = Some (fst (strategies st ! i)) \<and>
               best_size st = enat (fst (snd (strategies st ! i))) \<and>
               (\<forall>j<length (strategies st).
                  fst (snd (strategies st ! i)) \<le> fst (snd (strategies st ! j))) \<and>
               (\<forall>j<i. fst (snd (strategies st ! i)) < fst (snd (strategies st ! j)))))"
proof -
  from inv_run[OF assms] have
    ok: "\<forall>c\<in>set (strategies st). cand_ok P img (files st) c" and
    fm: "first_min (strategies st) (best_size st) (best_file st)" and
    sub: "subseq (map (\<lambda>c. snd (snd c)) (strategies st)) (catalog (unique_colors img))"
    unfolding inv_def by blast+
  have listed: "(file_of m, length b, m) \<in> set (strategies st) \<and>
      best_size st \<le> enat (length b)"
    if "applicable img m \<and> encoded P img m = Some b \<and> verified P img m b \<and>
        (\<forall>i F. m = Filter i \<longrightarrow> writable P F (temp3 i))" for m b
  proof -
    from that have "(file_of m, length b, m) \<in> set (strategies st)"
      using verified_listed[OF assms, of m b] by blast
    with first_min_le[OF fm] show ?thesis by blast
  qed
  have sel: "strategies st \<noteq> [] \<longrightarrow>
            (\<exists>i<length (strategies st).
               best_file st = Some (fst (strategies st ! i)) \<and>
               best_size st = enat (fst (snd (strategies st ! i))) \<and>
               (\<forall>j<length (strategies st).
                  fst (snd (strategies st ! i)) \<le> fst (snd (strategies st ! j))) \<and>
               (\<forall>j<i. fst (snd (strategies st ! i)) < fst (snd (strategies st ! j))))"
    using fm unfolding first_min_def by blast
  from listed ok sub sel show ?thesis by blast
qed

theorem selected_is_first_minimum_witness:
  "\<exists>st. run_strategies toy gray6 disk6 = Inr st \<and>
     strategies st ! 0 = (temp1, 7, Direct) \<and> strategies st ! 7 = (temp4 4, 5, Bits 4) \<and>
     best_file st = Some (temp4 4) \<and> best_size st = enat 5 \<and>
     applicable gray6 (Bits 4) \<and> encoded toy gray6 (Bits 4) = Some [4, 6, 17, 33, 34] \<and>
     verified toy gray6 (Bits 4) [4, 6, 17, 33, 34] \<and>
     (file_of (Bits 4), length [4, 6, 17, 33, 34 :: 8 word], Bits 4) \<in> set (strategies st) \<and>
     best_size st \<le> enat (length [4, 6, 17, 33, 34 :: 8 word]) \<and>
     (\<exists>i<length (strategies st).
        best_file st = Some (fst (strategies st ! i)) \<and>
        best_size st = enat (fst (snd (strategies st ! i))) \<and>
        (\<forall>j<length (strategies st).
           fst (snd (strategies st ! i)) \<le> fst (snd (strategies st ! j))) \<and>
        (\<forall>j<i. fst (snd (strategies st ! i)) < fst (snd (strategies st ! j))))"
proof -
  from toy_run6 obtain st where r: "run_strategies toy gray6 disk6 = Inr st"
    and s: "strategies st = [(temp1, 7, Direct), (temp2, 10, Palette 2), (temp3 0, 7, Filter 0),
       (temp3 1, 7, Filter 1), (temp3 2, 7, Filter 2), (temp3 3, 7, Filter 3),
       (temp3 4, 7, Filter 4), (temp4 4, 5, Bits 4), (temp4 2, 7, Bits 2), (temp4 1, 7, Bits 1)]"
    and b: "best_file st = Some (temp4 4)" "best_size st = enat 5"
    by blast
  have a: "applicable gray6 (Bits 4)"
    by (simp add: applicable_def gray6_def unique_colors_def)
  have e: "encoded toy gray6 (Bits 4) = Some [4, 6, 17, 33, 34]"
    by (simp add: encoded_def toy_defs gray6_def)
  have v: "verified toy gray6 (Bits 4) [4, 6, 17, 33, 34]"
    by (simp add: verified_def decoded_def toy_defs gray6_def)
  from s have ne: "strategies st \<noteq> []" and n0: "strategies st ! 0 = (temp1, 7, Direct)"
    and n7: "strategies st ! 7 = (temp4 4, 5, Bits 4)"
    by simp_all
  from selected_is_first_minimum[OF r] a e v ne
  have "(file_of (Bits 4), length [4, 6, 17, 33, 34 :: 8 word], Bits 4) \<in> set (strategies st) \<and>
     best_size st \<le> enat (length [4, 6, 17, 33, 34 :: 8 word]) \<and>
     (\<exists>i<length (strategies st).
        best_file st = Some (fst (strategies st ! i)) \<and>
        best_size st = enat (fst (snd (strategies st ! i))) \<and>
        (\<forall>j<length (strategies st).
           fst (snd (strategies st ! i)) \<le> fst (snd (strategies st ! j))) \<and>
        (\<forall>j<i. fst (snd (strategies st ! i)) < fst (snd (strategies st ! j))))"
    by blast
  with r n0 n7 b a e v show ?thesis by blast
qed

subsection \<open>Verification\<close>

text \<open>
  C2, as the code has it. Every candidate of the list \<open>strategies\<close> is stored in its file,
  its size is the length of the bytes its strategy encoded, and these bytes passed the
  comparison of its strategy: for the direct, filter and bit-depth methods the pixels of the
  re-opened file equal the original pixels; for the palette method the pixels of the
  re-opened file after its conversion to the mode of the original equal the original
  pixels (line 74), and the pixels of the re-opened file itself, which are palette indices,
  need not. An encoding that fails its comparison (\<open>verified\<close>) is never in the list.
\<close>

theorem ranked_candidates_verified:
  assumes "run_strategies P img F0 = Inr st"
  shows "(\<forall>c\<in>set (strategies st).
            \<exists>b. files st (fst c) = Some b \<and> fst (snd c) = length b \<and>
                encoded P img (snd (snd c)) = Some b \<and>
                (case snd (snd c) of
                   Palette n \<Rightarrow> decoded_converted P (mode img) b = Some (pixels img)
                 | _ \<Rightarrow> decoded P b = Some (pixels img))) \<and>
         (\<forall>f sz m b. encoded P img m = Some b \<and> \<not> verified P img m b \<longrightarrow>
            (f, sz, m) \<notin> set (strategies st))"
proof -
  have ok: "\<exists>b. files st f = Some b \<and> sz = length b \<and> encoded P img m = Some b \<and>
      verified P img m b" if "(f, sz, m) \<in> set (strategies st)" for f sz m
    using ranked_files[OF assms that] by (auto simp: cand_ok_def)
  have 1: "\<exists>b. files st (fst c) = Some b \<and> fst (snd c) = length b \<and>
                encoded P img (snd (snd c)) = Some b \<and>
                (case snd (snd c) of
                   Palette n \<Rightarrow> decoded_converted P (mode img) b = Some (pixels img)
                 | _ \<Rightarrow> decoded P b = Some (pixels img))"
    if "c \<in> set (strategies st)" for c
  proof -
    obtain f sz m where c: "c = (f, sz, m)" by (cases c) auto
    from ok[of f sz m] that c obtain b where "files st f = Some b" "sz = length b"
      "encoded P img m = Some b" "verified P img m b" by blast
    with c show ?thesis by (auto simp: verified_def)
  qed
  have 2: "(f, sz, m) \<notin> set (strategies st)"
    if "encoded P img m = Some b \<and> \<not> verified P img m b" for f sz m b
    using ok[of f sz m] that by auto
  from 1 2 show ?thesis by blast
qed

theorem ranked_candidates_verified_witness:
  "\<exists>st b. run_strategies toy gray2 disk0 = Inr st \<and>
     (temp2, 7, Palette 2) \<in> set (strategies st) \<and> files st temp2 = Some b \<and>
     7 = length b \<and> encoded toy gray2 (Palette 2) = Some b \<and>
     decoded_converted toy (mode gray2) b = Some (pixels gray2)"
proof -
  from toy_run obtain st where r: "run_strategies toy gray2 disk0 = Inr st"
    and s: "strategies st = [(temp1, 4, Direct), (temp2, 7, Palette 2), (temp3 0, 4, Filter 0),
       (temp3 1, 4, Filter 1), (temp3 2, 4, Filter 2), (temp3 3, 4, Filter 3),
       (temp3 4, 4, Filter 4), (temp4 4, 4, Bits 4), (temp4 2, 4, Bits 2), (temp4 1, 4, Bits 1)]"
    by blast
  from s have m: "(temp2, 7, Palette 2) \<in> set (strategies st)" by simp
  from ranked_candidates_verified[OF r] m
  have "\<exists>b. files st (fst (temp2, 7::nat, Palette 2)) = Some b \<and>
      fst (snd (temp2, 7::nat, Palette 2)) = length b \<and>
      encoded toy gray2 (snd (snd (temp2, 7::nat, Palette 2))) = Some b \<and>
      (case snd (snd (temp2, 7::nat, Palette 2)) of
         Palette n \<Rightarrow> decoded_converted toy (mode gray2) b = Some (pixels gray2)
       | _ \<Rightarrow> decoded toy b = Some (pixels gray2))"
    by blast
  with r m show ?thesis by auto
qed

text \<open>
  The claim as the specification words it, that decoding the bytes of every candidate of
  the list yields the original pixel sequence, fails for a palette candidate: on the image
  \<open>gray2\<close> the palette file is in the list, and re-opening it yields the palette indices
  \<open>0, 0, 1\<close>, not the gray levels \<open>7, 7, 9\<close>.
\<close>

theorem palette_candidate_raw_decode_differs:
  "\<exists>st b. run_strategies toy gray2 disk0 = Inr st \<and>
     (temp2, 7, Palette 2) \<in> set (strategies st) \<and> files st temp2 = Some b \<and>
     encoded toy gray2 (Palette 2) = Some b \<and>
     decoded toy b = Some [[0], [0], [1]] \<and> pixels gray2 = [[7], [7], [9]] \<and>
     decoded toy b \<noteq> Some (pixels gray2)"
proof -
  from toy_run obtain st where r: "run_strategies toy gray2 disk0 = Inr st"
    and s: "strategies st = [(temp1, 4, Direct), (temp2, 7, Palette 2), (temp3 0, 4, Filter 0),
       (temp3 1, 4, Filter 1), (temp3 2, 4, Filter 2), (temp3 3, 4, Filter 3),
       (temp3 4, 4, Filter 4), (temp4 4, 4, Bits 4), (temp4 2, 4, Bits 2), (temp4 1, 4, Bits 1)]"
    and f: "files st temp2 = Some [1, 2, 7, 9, 0, 0, 1]"
    by blast
  from s have m: "(temp2, 7, Palette 2) \<in> set (strategies st)" by simp
  have e: "encoded toy gray2 (Palette 2) = Some [1, 2, 7, 9, 0, 0, 1]"
    by (simp add: encoded_def toy_defs gray2_def)
  have d: "decoded toy [1, 2, 7, 9, 0, 0, 1] = Some [[0], [0], [1]]"
    by (simp add: decoded_def toy_defs)
  have p: "pixels gray2 = [[7], [7], [9]]" by (simp add: gray2_def)
  from r m f e d p show ?thesis by auto
qed

text \<open>
  C10. When the palette strategy applies and the run reaches the results, the palette
  image is encoded, and its file is a candidate of the list exactly when the re-opened
  file, converted to the mode of the original image, has the original pixels (lines
  74-75). The pixels of the re-opened file itself are not compared: in the example they are
  palette indices and differ from the original pixels, and the candidate is accepted.
\<close>

theorem palette_verified_after_conversion:
  assumes "run_strategies P img F0 = Inr st" and "palette_applicable img"
  shows "\<exists>p b. convert_P P img (unique_colors img) = Some p \<and> save_png P p None = Some b \<and>
           ((temp2, length b, Palette (unique_colors img)) \<in> set (strategies st)) =
           (decoded_converted P (mode img) b = Some (pixels img))"
proof -
  from run_catalog_steps[OF assms(1)] obtain st1 st2 where
    2: "strategy2 P img st1 = Inr st2" and
    s: "steps P img (drop 2 (catalog (unique_colors img))) st2 st" by blast
  from strategy2_result[OF 2 assms(2)] obtain p b where
    p: "convert_P P img (unique_colors img) = Some p" and b: "save_png P p None = Some b" and
    acc: "decoded_converted P (mode img) b = Some (pixels img) \<longrightarrow>
        strategies st2 = strategies st1 @ [(temp2, length b, Palette (unique_colors img))]"
    by blast
  have enc: "encoded P img (Palette (unique_colors img)) = Some b"
    using p b by (simp add: encoded_def)
  have "decoded_converted P (mode img) b = Some (pixels img)"
    if "(temp2, length b, Palette (unique_colors img)) \<in> set (strategies st)"
    using ranked_files[OF assms(1) that] enc by (auto simp: cand_ok_def verified_def)
  moreover have "(temp2, length b, Palette (unique_colors img)) \<in> set (strategies st)"
    if "decoded_converted P (mode img) b = Some (pixels img)"
  proof -
    from that acc have "(temp2, length b, Palette (unique_colors img)) \<in> set (strategies st2)"
      by simp
    with steps_mono[OF s] show ?thesis by blast
  qed
  ultimately have "((temp2, length b, Palette (unique_colors img)) \<in> set (strategies st)) =
           (decoded_converted P (mode img) b = Some (pixels img))" by blast
  with p b show ?thesis by blast
qed

theorem palette_verified_after_conversion_witness:
  "\<exists>st p b. run_strategies toy gray2 disk0 = Inr st \<and> palette_applicable gray2 \<and>
     convert_P toy gray2 (unique_colors gray2) = Some p \<and> save_png toy p None = Some b \<and>
     b = [1, 2, 7, 9, 0, 0, 1] \<and>
     ((temp2, length b, Palette (unique_colors gray2)) \<in> set (strategies st)) =
       (decoded_converted toy (mode gray2) b = Some (pixels gray2)) \<and>
     decoded_converted toy (mode gray2) b = Some (pixels gray2) \<and>
     decoded toy b \<noteq> Some (pixels gray2)"
proof -
  from toy_run obtain st where r: "run_strategies toy gray2 disk0 = Inr st" by blast
  have a: "palette_applicable gray2"
    by (simp add: palette_applicable_def unique_colors_def gray2_def)
  from palette_verified_after_conversion[OF r a] obtain p b where
    p: "convert_P toy gray2 (unique_colors gray2) = Some p" and
    b: "save_png toy p None = Some b" and
    e: "((temp2, length b, Palette (unique_colors gray2)) \<in> set (strategies st)) =
       (decoded_converted toy (mode gray2) b = Some (pixels gray2))"
    by blast
  from p b have v: "b = [1, 2, 7, 9, 0, 0, 1]"
    by (auto simp: toy_defs gray2_def unique_colors_def)
  have c: "decoded_converted toy (mode gray2) [1, 2, 7, 9, 0, 0, 1] = Some (pixels gray2)"
    by (simp add: decoded_converted_def toy_defs gray2_def)
  have d: "decoded toy [1, 2, 7, 9, 0, 0, 1] \<noteq> Some (pixels gray2)"
    by (simp add: decoded_def toy_defs gray2_def)
  from r a p b v e c d show ?thesis by blast
qed

subsection \<open>The filter variants\<close>

text \<open>
  C7. The loop of lines 88-102 saves with the call of line 42, whatever the filter index.
  So a filter candidate of the list has the bytes of the direct encoding: the direct
  candidate is in the list, first, with the same bytes in its file and the same size, the
  filter candidate is never the selected file, and the selected size is at most its size.
\<close>

theorem filter_candidates_repeat_direct:
  assumes "run_strategies P img F0 = Inr st" and "(f, sz, Filter i) \<in> set (strategies st)"
  shows "\<exists>b. encoded P img (Filter i) = Some b \<and> encoded P img Direct = Some b \<and>
           save_png P img None = Some b \<and> f = temp3 i \<and> files st f = Some b \<and>
           sz = length b \<and> files st temp1 = Some b \<and>
           strategies st ! 0 = (temp1, sz, Direct) \<and>
           (temp1, sz, Direct) \<in> set (strategies st) \<and>
           best_file st \<noteq> Some f \<and> best_size st \<le> enat sz"
proof -
  let ?cs = "strategies st"
  from ranked_files[OF assms] have "cand_ok P img (files st) (f, sz, Filter i)" by simp
  then obtain b where f: "f = temp3 i" and fb: "files st f = Some b" and sz: "sz = length b"
    and enc: "encoded P img (Filter i) = Some b" and ver: "verified P img (Filter i) b"
    by (auto simp: cand_ok_def file_of_def)
  from enc have save: "save_png P img None = Some b" by (simp add: encoded_def)
  then have encd: "encoded P img Direct = Some b" by (simp add: encoded_def)
  from ver have dec: "decoded P b = Some (pixels img)" by (simp add: verified_def)
  from run_catalog_steps[OF assms(1)] obtain st1 st2 where
    1: "strategy1 P img (init F0) = Inr st1" and 2: "strategy2 P img st1 = Inr st2" and
    s: "steps P img (drop 2 (catalog (unique_colors img))) st2 st" by blast
  from strategy1_result[OF 1 save dec] have
    s1: "strategies st1 = [(temp1, length b, Direct)]" and f1: "files st1 temp1 = Some b"
    by (simp_all add: init_def)
  from step_extend[OF step_strategy2[OF 2]] obtain n1 where
    n1: "strategies st2 = strategies st1 @ n1" by blast
  from steps_extend[OF s] obtain n2 where n2: "?cs = strategies st2 @ n2" by blast
  from s1 n1 n2 have cs: "?cs = (temp1, length b, Direct) # (n1 @ n2)" by simp
  then have c0: "?cs ! 0 = (temp1, length b, Direct)" and pos: "0 < length ?cs" by simp_all
  have "temp1 \<noteq> temp2" by (simp add: temp1_def temp2_def)
  from strategy2_frame[OF 2 this] f1 have "files st2 temp1 = Some b" by simp
  moreover have "temp1 \<notin> file_of ` set (drop 2 (catalog (unique_colors img)))"
    by (simp add: later_files)
  ultimately have ft: "files st temp1 = Some b" using steps_frame[OF s] by simp
  from inv_run[OF assms(1)] have "first_min ?cs (best_size st) (best_file st)"
    unfolding inv_def by blast
  with cs obtain k where k: "k < length ?cs" "best_file st = Some (fst (?cs ! k))"
    "best_size st = enat (fst (snd (?cs ! k)))"
    "\<forall>j<length ?cs. fst (snd (?cs ! k)) \<le> fst (snd (?cs ! j))"
    "\<forall>j<k. fst (snd (?cs ! k)) < fst (snd (?cs ! j))"
    by (auto simp: first_min_def)
  from k(4) pos have "fst (snd (?cs ! k)) \<le> fst (snd (?cs ! 0))" by blast
  with c0 k(3) sz have le: "best_size st \<le> enat sz" by simp
  have nb: "best_file st \<noteq> Some f"
  proof
    assume "best_file st = Some f"
    with k(2) f have fk: "fst (?cs ! k) = temp3 i" by simp
    from k(1) have "?cs ! k \<in> set ?cs" by simp
    from ranked_files[OF assms(1) this] have "cand_ok P img (files st) (?cs ! k)" by simp
    then obtain b0 where "files st (fst (?cs ! k)) = Some b0" "fst (snd (?cs ! k)) = length b0"
      by (cases "?cs ! k") (auto simp: cand_ok_def)
    with fk fb f have eq: "fst (snd (?cs ! k)) = length b" by simp
    have "temp1 \<noteq> temp3 i" by (simp add: temp1_def temp3_def)
    have "k \<noteq> 0"
    proof
      assume "k = 0"
      with fk c0 have "temp1 = temp3 i" by simp
      with \<open>temp1 \<noteq> temp3 i\<close> show False by simp
    qed
    then have "0 < k" by simp
    with k(5) have "fst (snd (?cs ! k)) < fst (snd (?cs ! 0))" by blast
    with c0 eq show False by simp
  qed
  from cs sz have mem: "(temp1, sz, Direct) \<in> set ?cs" by simp
  from enc encd save f fb sz ft c0 mem nb le show ?thesis by auto
qed

theorem filter_candidates_repeat_direct_witness:
  "\<exists>st b. run_strategies toy gray6 disk6 = Inr st \<and>
     (temp3 2, 7, Filter 2) \<in> set (strategies st) \<and>
     encoded toy gray6 (Filter 2) = Some b \<and> encoded toy gray6 Direct = Some b \<and>
     files st (temp3 2) = Some b \<and> 7 = length b \<and> files st temp1 = Some b \<and>
     strategies st ! 0 = (temp1, 7, Direct) \<and> best_file st \<noteq> Some (temp3 2) \<and>
     best_size st \<le> enat 7"
proof -
  from toy_run6 obtain st where r: "run_strategies toy gray6 disk6 = Inr st"
    and s: "strategies st = [(temp1, 7, Direct), (temp2, 10, Palette 2), (temp3 0, 7, Filter 0),
       (temp3 1, 7, Filter 1), (temp3 2, 7, Filter 2), (temp3 3, 7, Filter 3),
       (temp3 4, 7, Filter 4), (temp4 4, 5, Bits 4), (temp4 2, 7, Bits 2), (temp4 1, 7, Bits 1)]"
    by blast
  from s have m: "(temp3 2, 7, Filter 2) \<in> set (strategies st)" by simp
  from filter_candidates_repeat_direct[OF r m] r m show ?thesis by blast
qed

subsection \<open>Applicability of the palette strategy\<close>



subsection \<open>The outcome\<close>






text \<open>
  C5. Let the input be read and the run reach the results with a selected size \<open>n\<close> that
  is not below the target (equal to it, or above). Then a candidate of that size is
  selected, the function returns \<open>(None, n)\<close>, reports that the target cannot be achieved
  with best size \<open>n\<close> and shortfall \<open>n - target_bytes\<close>, and copies nothing: it only removes
  the files of the candidates, and every file that is not one of the temporary files, the
  destination among them, is as it was before the call.
\<close>

theorem budget_missed_outcome:
  assumes "F0 input_path = Some original" and "open_image P original = Some img"
    and "run_strategies P img F0 = Inr st"
    and "best_size st = enat n" and "target_bytes \<le> int n"
  shows "(\<exists>bf m. best_file st = Some bf \<and> (bf, n, m) \<in> set (strategies st)) \<and>
         ultra_compress_lossless P input_path output_path target_bytes F0 =
           Inr \<lparr>returned = (None, enat n),
                printed = CannotAchieve (enat n) target_bytes (Finite (int n - target_bytes)),
                disk = cleanup_all P (strategies st) (files st)\<rparr> \<and>
         (\<forall>f. f \<notin> set temp_files \<longrightarrow> cleanup_all P (strategies st) (files st) f = F0 f)"
proof -
  from run_winner[OF assms(3,4)] have
    w: "\<exists>bf m. best_file st = Some bf \<and> (bf, n, m) \<in> set (strategies st)" by blast
  from assms(4,5) have bt: "\<not> below_target (best_size st) target_bytes"
    by (simp add: below_target_def)
  have "ultra_compress_lossless P input_path output_path target_bytes F0 =
      results P (length original) output_path target_bytes st"
    using assms(1,2,3) by (rule ultra_results)
  with bt assms(4) have u: "ultra_compress_lossless P input_path output_path target_bytes F0 =
           Inr \<lparr>returned = (None, enat n),
                printed = CannotAchieve (enat n) target_bytes (Finite (int n - target_bytes)),
                disk = cleanup_all P (strategies st) (files st)\<rparr>"
    by (simp add: results_def minus_target_def)
  have "cleanup_all P (strategies st) (files st) f = F0 f" if "f \<notin> set temp_files" for f
    using cleanup_all_frame[OF ranked_names[OF assms(3) that]] run_frame[OF assms(3) that]
    by simp
  with w u show ?thesis by blast
qed

theorem budget_missed_outcome_witness:
  "\<exists>st. run_strategies toy gray6 disk6 = Inr st \<and> best_size st = enat 5 \<and>
     ultra_compress_lossless toy ''in.png'' ''out.png'' 5 disk6 =
       Inr \<lparr>returned = (None, enat 5),
            printed = CannotAchieve (enat 5) 5 (Finite (int 5 - 5)),
            disk = cleanup_all toy (strategies st) (files st)\<rparr> \<and>
     cleanup_all toy (strategies st) (files st) ''out.png'' = disk6 ''out.png'' \<and>
     disk6 ''out.png'' = None"
proof -
  from toy_run6 obtain st where r: "run_strategies toy gray6 disk6 = Inr st"
    and b: "best_size st = enat 5" by blast
  have i: "disk6 ''in.png'' = Some [0, 1, 1, 2, 1, 2, 2]" by (simp add: disk6_def)
  have n: "disk6 ''out.png'' = None" by (simp add: disk6_def)
  have t: "(5::int) \<le> int 5" by simp
  from budget_missed_outcome[OF i toy_inputs(2) r b t, of "''out.png''"] outside_temp_files
  have "ultra_compress_lossless toy ''in.png'' ''out.png'' 5 disk6 =
       Inr \<lparr>returned = (None, enat 5),
            printed = CannotAchieve (enat 5) 5 (Finite (int 5 - 5)),
            disk = cleanup_all toy (strategies st) (files st)\<rparr> \<and>
     cleanup_all toy (strategies st) (files st) ''out.png'' = disk6 ''out.png''"
    by blast
  with r b n show ?thesis by blast
qed

text \<open>
  C8. If a call reports a success for the target \<open>t\<close>, the same call with a target
  \<open>t'\<close> at least \<open>t\<close> reports a success too, with the same size and percentage, returns the
  same value and leaves the same files.
\<close>

theorem success_monotone_in_target:
  assumes "ultra_compress_lossless P input_path output_path t F0 = Inr out"
    and "printed out = Success n u r p" and "t \<le> t'"
  shows "\<exists>out'. ultra_compress_lossless P input_path output_path t' F0 = Inr out' \<and>
           printed out' = Success n t' r p \<and> returned out' = returned out \<and>
           disk out' = disk out"
proof -
  from ultra_cases[OF assms(1)] obtain original img st where
    o: "F0 input_path = Some original" "open_image P original = Some img"
    "run_strategies P img F0 = Inr st" and
    res: "results P (length original) output_path t st = Inr out" by blast
  from results_mono[OF res assms(2,3)] obtain out' where
    "results P (length original) output_path t' st = Inr out'"
    "printed out' = Success n t' r p" "returned out' = returned out" "disk out' = disk out"
    by blast
  with ultra_results[OF o, of output_path t'] show ?thesis by simp
qed

theorem success_monotone_in_target_witness:
  "\<exists>out out'. ultra_compress_lossless toy ''in.png'' ''out.png'' 6 disk6 = Inr out \<and>
     printed out = Success 5 6 (200 / 7) ''out.png'' \<and> (6::int) \<le> 400 \<and>
     ultra_compress_lossless toy ''in.png'' ''out.png'' 400 disk6 = Inr out' \<and>
     printed out' = Success 5 400 (200 / 7) ''out.png'' \<and> returned out' = returned out \<and>
     disk out' = disk out"
proof -
  from toy_run6 obtain st where r: "run_strategies toy gray6 disk6 = Inr st"
    and b: "best_size st = enat 5" "best_file st = Some (temp4 4)"
    and f: "files st (temp4 4) = Some [4, 6, 17, 33, 34]" by blast
  have i: "disk6 ''in.png'' = Some [0, 1, 1, 2, 1, 2, 2]" by (simp add: disk6_def)
  have "ultra_compress_lossless toy ''in.png'' ''out.png'' 6 disk6 =
      results toy (length [0, 1, 1, 2, 1, 2, 2 :: 8 word]) ''out.png'' 6 st"
    using i toy_inputs(2) r by (rule ultra_results)
  with b f obtain out where o: "ultra_compress_lossless toy ''in.png'' ''out.png'' 6 disk6 = Inr out"
    and p: "printed out = Success 5 6 (200 / 7) ''out.png''"
    by (simp add: results_def below_target_def copy_file_def toy_def toy_writable_def
        temp4_def digit_def Let_def)
  have t: "(6::int) \<le> 400" by simp
  from success_monotone_in_target[OF o p t] o p t show ?thesis by blast
qed

subsection \<open>Failures of a strategy\<close>

text \<open>
  C6. Only the filter loop has a \<open>try\<close> (lines 90-102): there a save that fails is
  swallowed and the state is unchanged. The same failure in the direct strategy
  (line 42) is not caught: when the encoder refuses the image, the whole call raises, and
  no result is returned. The palette strategy (lines 65-74) and the bit-depth strategy
  (line 114) have no \<open>try\<close> either.
\<close>

theorem encode_failure_aborts_run:
  assumes "F0 input_path = Some original" and "open_image P original = Some img"
    and "save_png P img None = None"
  shows "ultra_compress_lossless P input_path output_path target_bytes F0 =
           Inl (if writable P F0 temp1 then SaveError else WriteError) \<and>
         (\<forall>i s. try_filter P img i s = s)"
  using assms
  by (simp add: ultra_compress_lossless_def Image_open_def getsize_def run_strategies_def
      strategy1_def img_save_def init_def try_filter_def Let_def)

theorem encode_failure_aborts_run_witness:
  "disk_cmyk ''in.jpg'' = Some [2, 5, 6] \<and> open_image toy [2, 5, 6] = Some cmyk2 \<and>
   save_png toy cmyk2 None = None \<and>
   ultra_compress_lossless toy ''in.jpg'' ''out.png'' 400 disk_cmyk = Inl SaveError"
proof -
  have i: "disk_cmyk ''in.jpg'' = Some [2, 5, 6]" by (simp add: disk_cmyk_def)
  have s: "save_png toy cmyk2 None = None" by (simp add: toy_def toy_save_def cmyk2_def)
  have w: "writable toy disk_cmyk temp1" by (simp add: toy_def toy_writable_def temp1_def)
  have "ultra_compress_lossless toy ''in.jpg'' ''out.png'' 400 disk_cmyk =
           Inl (if writable toy disk_cmyk temp1 then SaveError else WriteError) \<and>
         (\<forall>i s. try_filter toy cmyk2 i s = s)"
    using i toy_inputs(4) s by (rule encode_failure_aborts_run)
  with w i s toy_inputs(4) show ?thesis by simp
qed


end
